theory Spec2Isabelle
  imports
    Main
    "HOL-Library.Word"
    "HOL-Library.Char_ord"
    "HOL-Library.List_Lexorder"
begin

unbundle bit_operations_syntax

section \<open>JavaScript values\<close>

text \<open>
  The payloads handed to the content store (the IndexedDB abstraction \<^verbatim>\<open>TrifleDB\<close>, in
  \<^verbatim>\<open>web/js/editor.js\<close>) are JavaScript values.
  Strings are sequences of code units; the model covers code units below 256, one
  \<^typ>\<open>char\<close> each.  Numbers are the integer-valued ones, printed in decimal; a number with
  a fractional part or an exponent is outside the model.  An object is the list of its own
  enumerable properties in insertion order; a JavaScript object never has two properties
  of the same name, which \<open>wf_value\<close> below writes out.
\<close>

datatype jsval =
    JUndefined
  | JNull
  | JBool bool
  | JNum int
  | JStr string
  | JArr "jsval list"
  | JObj "(string \<times> jsval) list"

text \<open>\<^verbatim>\<open>obj[key]\<close>: a missing property reads as \<^verbatim>\<open>undefined\<close>.\<close>

definition obj_get :: "(string \<times> jsval) list \<Rightarrow> string \<Rightarrow> jsval" where
  "obj_get kvs key = (case map_of kvs key of None \<Rightarrow> JUndefined | Some v \<Rightarrow> v)"

text \<open>\<^verbatim>\<open>Object.keys(obj)\<close>.\<close>

definition object_keys :: "(string \<times> jsval) list \<Rightarrow> string list" where
  "object_keys kvs = map fst kvs"

fun wf_value :: "jsval \<Rightarrow> bool" where
  "wf_value (JArr xs) = list_all wf_value xs"
| "wf_value (JObj kvs) = (distinct (map fst kvs) \<and> list_all (\<lambda>kv. wf_value (snd kv)) kvs)"
| "wf_value _ = True"

section \<open>Text helpers of the JavaScript runtime\<close>

definition hexdigit :: "nat \<Rightarrow> char" where
  "hexdigit n = ''0123456789abcdef'' ! (n mod 16)"

text \<open>\<^verbatim>\<open>b.toString(16).padStart(2, '0')\<close> for a byte \<open>b\<close>.\<close>

definition hex2 :: "8 word \<Rightarrow> string" where
  "hex2 b = [hexdigit (unat b div 16), hexdigit (unat b mod 16)]"

text \<open>Decimal rendering of an integer-valued number, as \<^verbatim>\<open>JSON.stringify\<close> prints it.\<close>

fun show_nat :: "nat \<Rightarrow> string" where
  "show_nat n = (if n < 10 then [hexdigit n] else show_nat (n div 10) @ [hexdigit (n mod 10)])"

declare show_nat.simps [simp del]

definition show_int :: "int \<Rightarrow> string" where
  "show_int i = (if i < 0 then CHR ''-'' # show_nat (nat (- i)) else show_nat (nat i))"

text \<open>
  \<^verbatim>\<open>JSON.stringify\<close> of a string: the two-character escapes, \<^verbatim>\<open>\u00XX\<close> for the other
  control characters, every other code unit as it is, all between double quotes.
\<close>

definition quote_char :: "char \<Rightarrow> string" where
  "quote_char c =
     (if c = CHR 0x08 then [CHR 0x5C, CHR ''b'']
      else if c = CHR 0x09 then [CHR 0x5C, CHR ''t'']
      else if c = CHR 0x0A then [CHR 0x5C, CHR ''n'']
      else if c = CHR 0x0C then [CHR 0x5C, CHR ''f'']
      else if c = CHR 0x0D then [CHR 0x5C, CHR ''r'']
      else if c = CHR 0x22 then [CHR 0x5C, CHR 0x22]
      else if c = CHR 0x5C then [CHR 0x5C, CHR 0x5C]
      else if (of_char c :: nat) < 0x20
        then [CHR 0x5C, CHR ''u'', CHR ''0'', CHR ''0'',
              hexdigit (of_char c div 16), hexdigit (of_char c mod 16)]
      else [c])"

definition quote_string :: "string \<Rightarrow> string" where
  "quote_string s = [CHR 0x22] @ concat (map quote_char s) @ [CHR 0x22]"

text \<open>\<^verbatim>\<open>JSON.stringify\<close> on the values whose \<^verbatim>\<open>typeof\<close> is not \<^verbatim>\<open>'object'\<close>.\<close>

fun JSON_stringify :: "jsval \<Rightarrow> string option" where
  "JSON_stringify (JBool b) = Some (if b then ''true'' else ''false'')"
| "JSON_stringify (JNum n) = Some (show_int n)"
| "JSON_stringify (JStr s) = Some (quote_string s)"
| "JSON_stringify _ = None"

text \<open>
  \<^verbatim>\<open>Array.prototype.join\<close>: an element that is \<^verbatim>\<open>undefined\<close> contributes the empty
  string.
\<close>

fun join :: "string \<Rightarrow> string option list \<Rightarrow> string" where
  "join sep [] = []"
| "join sep [x] = (case x of None \<Rightarrow> [] | Some s \<Rightarrow> s)"
| "join sep (x # y # ys) = (case x of None \<Rightarrow> [] | Some s \<Rightarrow> s) @ sep @ join sep (y # ys)"

section \<open>canonicalJSON\<close>

function canonicalJSON :: "jsval \<Rightarrow> string option" where
  "canonicalJSON JNull = Some ''null''"
| "canonicalJSON JUndefined = None"
| "canonicalJSON (JBool b) = JSON_stringify (JBool b)"
| "canonicalJSON (JNum n) = JSON_stringify (JNum n)"
| "canonicalJSON (JStr s) = JSON_stringify (JStr s)"
| "canonicalJSON (JArr xs) = Some (''['' @ join '','' (map canonicalJSON xs) @ '']'')"
| "canonicalJSON (JObj kvs) =
     Some (''{'' @
       join '',''
         (filter (\<lambda>pair. pair \<noteq> None)
           (map (\<lambda>key. case canonicalJSON (obj_get kvs key) of
                         None \<Rightarrow> None
                       | Some v \<Rightarrow> Some (quote_string key @ '':'' @ v))
                (sort (object_keys kvs))))
       @ ''}'')"
  by pat_completeness auto
termination
proof (relation "measure size", goal_cases)
  case 1
  show ?case by simp
next
  case (2 xs x)
  then show ?case by (simp add: size_list_estimation' less_Suc_eq_le)
next
  case (3 kvs key)
  have "size (obj_get kvs key) \<le> size_list (size_prod (\<lambda>_. 0) size) kvs"
    by (induction kvs) (auto simp: obj_get_def)
  then show ?case by (simp add: less_Suc_eq_le)
qed

section \<open>SHA-256 (FIPS 180-4), as \<^verbatim>\<open>crypto.subtle.digest('SHA-256', data)\<close> computes it\<close>

definition rotr :: "nat \<Rightarrow> 32 word \<Rightarrow> 32 word" where
  "rotr n x = (drop_bit n x) OR (push_bit (32 - n) x)"

definition Ch :: "32 word \<Rightarrow> 32 word \<Rightarrow> 32 word \<Rightarrow> 32 word" where
  "Ch x y z = (x AND y) XOR (NOT x AND z)"

definition Maj :: "32 word \<Rightarrow> 32 word \<Rightarrow> 32 word \<Rightarrow> 32 word" where
  "Maj x y z = (x AND y) XOR (x AND z) XOR (y AND z)"

definition Sigma0 :: "32 word \<Rightarrow> 32 word" where
  "Sigma0 x = rotr 2 x XOR rotr 13 x XOR rotr 22 x"

definition Sigma1 :: "32 word \<Rightarrow> 32 word" where
  "Sigma1 x = rotr 6 x XOR rotr 11 x XOR rotr 25 x"

definition sigma0 :: "32 word \<Rightarrow> 32 word" where
  "sigma0 x = rotr 7 x XOR rotr 18 x XOR drop_bit 3 x"

definition sigma1 :: "32 word \<Rightarrow> 32 word" where
  "sigma1 x = rotr 17 x XOR rotr 19 x XOR drop_bit 10 x"

text \<open>
  The constants of the standard: the first thirty-two bits of the fractional parts of the
  cube roots of the first sixty-four primes, and of the square roots of the first eight.
\<close>

definition is_prime :: "nat \<Rightarrow> bool" where
  "is_prime n = (1 < n \<and> list_all (\<lambda>d. n mod d \<noteq> 0) [2..<n])"

definition first_primes :: "nat \<Rightarrow> nat list" where
  "first_primes k = take k (filter is_prime [2..<312])"

text \<open>The largest \<open>r\<close> below \<open>2 ^ 48\<close> with \<open>r ^ k \<le> n\<close>, found bit by bit.\<close>

definition root_floor :: "nat \<Rightarrow> nat \<Rightarrow> nat" where
  "root_floor k n = fold (\<lambda>b r. if (r + 2 ^ b) ^ k \<le> n then r + 2 ^ b else r) (rev [0..<48]) 0"

definition sha256_K :: "32 word list" where
  "sha256_K = map (\<lambda>p. of_nat (root_floor 3 (p * 2 ^ 96))) (first_primes 64)"

definition sha256_H0 :: "32 word list" where
  "sha256_H0 = map (\<lambda>p. of_nat (root_floor 2 (p * 2 ^ 64))) (first_primes 8)"

text \<open>Padding: the bit 1, zeros, and the length in bits as 64 bits, big-endian.\<close>

definition be_bytes :: "nat \<Rightarrow> 'a::len word \<Rightarrow> 8 word list" where
  "be_bytes k w = map (\<lambda>i. ucast (drop_bit (8 * (k - 1 - i)) w)) [0..<k]"

definition sha256_pad :: "8 word list \<Rightarrow> 8 word list" where
  "sha256_pad msg =
     msg @ [0x80] @ replicate ((119 - length msg mod 64) mod 64) 0 @ be_bytes 8 (of_nat (8 * length msg) :: 64 word)"

definition be_word :: "8 word list \<Rightarrow> 32 word" where
  "be_word bs = foldl (\<lambda>acc b. push_bit 8 acc OR ucast b) 0 bs"

fun chunks :: "nat \<Rightarrow> 'a list \<Rightarrow> 'a list list" where
  "chunks n xs = (if n = 0 \<or> xs = [] then [] else take n xs # chunks n (drop n xs))"

declare chunks.simps [simp del]

text \<open>The message schedule: sixteen words of the block, then forty-eight derived ones.\<close>

fun schedule :: "nat \<Rightarrow> 32 word list \<Rightarrow> 32 word list" where
  "schedule 0 w = w"
| "schedule (Suc k) w =
     schedule k
       (w @ [sigma1 (w ! (length w - 2)) + w ! (length w - 7)
             + sigma0 (w ! (length w - 15)) + w ! (length w - 16)])"

definition sha256_round :: "32 word list \<Rightarrow> 32 word \<times> 32 word \<Rightarrow> 32 word list" where
  "sha256_round s kw =
     (case s of [a, b, c, d, e, f, g, h] \<Rightarrow>
        (let t1 = h + Sigma1 e + Ch e f g + fst kw + snd kw;
             t2 = Sigma0 a + Maj a b c
         in [t1 + t2, a, b, c, d + t1, e, f, g])
      | _ \<Rightarrow> s)"

definition sha256_block :: "32 word list \<Rightarrow> 8 word list \<Rightarrow> 32 word list" where
  "sha256_block hs block =
     map2 (+) hs
       (foldl sha256_round hs (zip sha256_K (schedule 48 (map be_word (chunks 4 block)))))"

definition sha256 :: "8 word list \<Rightarrow> 8 word list" where
  "sha256 msg =
     concat (map (\<lambda>w. be_bytes 4 w) (foldl sha256_block sha256_H0 (chunks 64 (sha256_pad msg))))"

section \<open>computeHash\<close>

text \<open>
  \<^verbatim>\<open>new TextEncoder().encode(text)\<close>: UTF-8; a code unit from 128 to 255 takes two bytes.
  Called with \<^verbatim>\<open>undefined\<close> it encodes the empty string.
\<close>

definition utf8_char :: "char \<Rightarrow> 8 word list" where
  "utf8_char c =
     (if (of_char c :: nat) < 0x80 then [of_char c]
      else [0xC0 OR drop_bit 6 (of_char c), 0x80 OR ((of_char c) AND 0x3F)])"

definition TextEncoder_encode :: "string option \<Rightarrow> 8 word list" where
  "TextEncoder_encode text = (case text of None \<Rightarrow> [] | Some s \<Rightarrow> concat (map utf8_char s))"

definition computeHash :: "jsval \<Rightarrow> string" where
  "computeHash content =
     (let text = (case content of JStr s \<Rightarrow> Some s | _ \<Rightarrow> canonicalJSON content);
          data = TextEncoder_encode text;
          hashBuffer = sha256 data
      in concat (map hex2 hashBuffer))"

section \<open>IndexedDB object stores\<close>

text \<open>
  An object store keeps its records in ascending order of their primary key, one record
  per key.  \<^verbatim>\<open>put\<close> replaces the record of the same key, \<^verbatim>\<open>add\<close> refuses an existing key
  (\<^verbatim>\<open>ConstraintError\<close>), \<^verbatim>\<open>delete\<close> of a missing key does nothing.  An index queried with
  \<^verbatim>\<open>IDBKeyRange.only(k)\<close> yields the records whose indexed field is \<open>k\<close>, in
  primary-key order.
\<close>

definition idb_get :: "('r \<Rightarrow> 'k) \<Rightarrow> 'r list \<Rightarrow> 'k \<Rightarrow> 'r option" where
  "idb_get key store k = find (\<lambda>r. key r = k) store"

definition idb_delete :: "('r \<Rightarrow> 'k) \<Rightarrow> 'k \<Rightarrow> 'r list \<Rightarrow> 'r list" where
  "idb_delete key k store = filter (\<lambda>r. key r \<noteq> k) store"

definition idb_put :: "('r \<Rightarrow> 'k::linorder) \<Rightarrow> 'r \<Rightarrow> 'r list \<Rightarrow> 'r list" where
  "idb_put key r store = insort_key key r (idb_delete key (key r) store)"

definition idb_add :: "('r \<Rightarrow> 'k::linorder) \<Rightarrow> 'r \<Rightarrow> 'r list \<Rightarrow> 'r list option" where
  "idb_add key r store =
     (if key r \<in> key ` set store then None else Some (insort_key key r store))"

definition idb_index_getAll :: "('r \<Rightarrow> 'i) \<Rightarrow> 'r list \<Rightarrow> 'i \<Rightarrow> 'r list" where
  "idb_index_getAll ix store k = filter (\<lambda>r. ix r = k) store"

subsection \<open>The four stores of \<^verbatim>\<open>initDB\<close>\<close>

record user =
  u_id :: string
  u_email :: "string option"
  u_current_hash :: string
  u_last_modified :: int
  u_logical_clock :: int

record trifle =
  t_id :: string
  t_owner_id :: string
  t_current_hash :: string
  t_last_modified :: int
  t_logical_clock :: int

record content_record =
  c_hash :: string
  c_data :: jsval
  c_type :: string

record version =
  v_id :: nat
  v_trifle_id :: string
  v_hash :: string
  v_timestamp :: int
  v_label :: string

text \<open>
  The database: the stores \<^verbatim>\<open>users\<close>, \<^verbatim>\<open>trifles\<close>, \<^verbatim>\<open>content\<close>, \<^verbatim>\<open>versions\<close>, and the key
  generator of the auto-incrementing \<^verbatim>\<open>versions\<close> store.  Timestamps and logical clocks
  are integers; a JavaScript number counts exactly up to \<open>2 ^ 53\<close>, which no clock that
  starts at 1 and is incremented by one per update comes near.
\<close>

record database =
  users :: "user list"
  trifles :: "trifle list"
  content :: "content_record list"
  versions :: "version list"
  versions_keygen :: nat

definition initDB :: database where
  "initDB = \<lparr>users = [], trifles = [], content = [], versions = [], versions_keygen = 1\<rparr>"

datatype error = UserNotFound | TrifleNotFound | ConstraintError | TypeError

section \<open>The operations of \<^verbatim>\<open>TrifleDB\<close>\<close>

text \<open>
  Every operation takes the database and returns it with its result.  What the source
  reads from its environment is an argument: \<open>now\<close> is \<^verbatim>\<open>Date.now()\<close>, \<open>array\<close> the bytes
  \<^verbatim>\<open>crypto.getRandomValues\<close> wrote into \<^verbatim>\<open>new Uint8Array(length / 2)\<close>.  An argument with a
  default value is an option, \<open>None\<close> when the caller leaves it out.
\<close>

definition generateId :: "string \<Rightarrow> 8 word list \<Rightarrow> string" where
  "generateId prefix array = prefix @ ''_'' @ concat (map hex2 array)"

definition storeContent :: "database \<Rightarrow> jsval \<Rightarrow> string \<Rightarrow> string \<times> database" where
  "storeContent db data type =
     (let hash = computeHash data
      in (hash,
          db\<lparr>content := idb_put c_hash \<lparr>c_hash = hash, c_data = data, c_type = type\<rparr> (content db)\<rparr>))"

definition getContent :: "database \<Rightarrow> string \<Rightarrow> jsval" where
  "getContent db hash =
     (case idb_get c_hash (content db) hash of None \<Rightarrow> JNull | Some record \<Rightarrow> c_data record)"

text \<open>The data blob \<^verbatim>\<open>createUser\<close> builds for a new user.\<close>

definition new_userData :: "string \<Rightarrow> jsval" where
  "new_userData displayName =
     JObj [(''display_name'', JStr displayName),
           (''avatar'', JNull),
           (''settings'', JObj [(''auto_sync'', JBool False),
                                (''theme'', JStr ''dark''),
                                (''auto_save_interval'', JNum 60)])]"

definition createUser :: "database \<Rightarrow> 8 word list \<Rightarrow> int \<Rightarrow> string \<Rightarrow> (error + user) \<times> database" where
  "createUser db array now displayName =
     (let id = generateId ''user'' array;
          userData = new_userData displayName;
          (hash, db1) = storeContent db userData ''user'';
          user = \<lparr>u_id = id, u_email = None, u_current_hash = hash,
                  u_last_modified = now, u_logical_clock = 1\<rparr>
      in case idb_add u_id user (users db1) of
           None \<Rightarrow> (Inl ConstraintError, db1)
         | Some store \<Rightarrow> (Inr user, db1\<lparr>users := store\<rparr>))"

definition getUser :: "database \<Rightarrow> string \<Rightarrow> user option" where
  "getUser db userId = idb_get u_id (users db) userId"

definition updateUser :: "database \<Rightarrow> int \<Rightarrow> string \<Rightarrow> jsval \<Rightarrow> (error + user) \<times> database" where
  "updateUser db now userId userData =
     (case getUser db userId of
        None \<Rightarrow> (Inl UserNotFound, db)
      | Some user \<Rightarrow>
          (let (hash, db1) = storeContent db userData ''user'';
               user' = user\<lparr>u_current_hash := hash, u_last_modified := now,
                            u_logical_clock := u_logical_clock user + 1\<rparr>
           in (Inr user', db1\<lparr>users := idb_put u_id user' (users db1)\<rparr>)))"

definition getUserData :: "database \<Rightarrow> string \<Rightarrow> jsval" where
  "getUserData db userId =
     (case getUser db userId of None \<Rightarrow> JNull | Some user \<Rightarrow> getContent db (u_current_hash user))"

definition mainPyContent :: string where
  "mainPyContent = ''# Welcome to Trifle!'' @ [CHR 0x0A] @ ''print('' @ [CHR 0x22]
                    @ ''Hello, world!'' @ [CHR 0x22] @ '')'' @ [CHR 0x0A]"

text \<open>The data blob \<^verbatim>\<open>createTrifle\<close> builds for a new trifle with its one file.\<close>

definition new_trifleData :: "string \<Rightarrow> string option \<Rightarrow> string \<Rightarrow> jsval" where
  "new_trifleData name description mainPyHash =
     JObj [(''name'', JStr name),
           (''description'', JStr (case description of None \<Rightarrow> [] | Some d \<Rightarrow> d)),
           (''files'', JArr [JObj [(''path'', JStr ''main.py''), (''hash'', JStr mainPyHash)]])]"

definition createTrifle ::
  "database \<Rightarrow> 8 word list \<Rightarrow> int \<Rightarrow> string \<Rightarrow> string \<Rightarrow> string option \<Rightarrow> (error + trifle) \<times> database" where
  "createTrifle db array now ownerId name description =
     (let id = generateId ''trifle'' array;
          (mainPyHash, db1) = storeContent db (JStr mainPyContent) ''file'';
          trifleData = new_trifleData name description mainPyHash;
          (hash, db2) = storeContent db1 trifleData ''trifle'';
          trifle = \<lparr>t_id = id, t_owner_id = ownerId, t_current_hash = hash,
                    t_last_modified = now, t_logical_clock = 1\<rparr>
      in case idb_add t_id trifle (trifles db2) of
           None \<Rightarrow> (Inl ConstraintError, db2)
         | Some store \<Rightarrow> (Inr trifle, db2\<lparr>trifles := store\<rparr>))"

definition getTrifle :: "database \<Rightarrow> string \<Rightarrow> trifle option" where
  "getTrifle db trifleId = idb_get t_id (trifles db) trifleId"

definition getTrifleData :: "database \<Rightarrow> string \<Rightarrow> jsval" where
  "getTrifleData db trifleId =
     (case getTrifle db trifleId of
        None \<Rightarrow> JNull
      | Some trifle \<Rightarrow> getContent db (t_current_hash trifle))"

definition updateTrifle :: "database \<Rightarrow> int \<Rightarrow> string \<Rightarrow> jsval \<Rightarrow> (error + trifle) \<times> database" where
  "updateTrifle db now trifleId trifleData =
     (case getTrifle db trifleId of
        None \<Rightarrow> (Inl TrifleNotFound, db)
      | Some trifle \<Rightarrow>
          (let (hash, db1) = storeContent db trifleData ''trifle'';
               trifle' = trifle\<lparr>t_current_hash := hash, t_last_modified := now,
                                t_logical_clock := t_logical_clock trifle + 1\<rparr>
           in (Inr trifle', db1\<lparr>trifles := idb_put t_id trifle' (trifles db1)\<rparr>)))"

text \<open>
  The cursor of \<^verbatim>\<open>deleteTrifle\<close> visits the versions of the trifle one after the other and
  deletes the record under it.
\<close>

fun cursor_delete_all :: "version list \<Rightarrow> version list \<Rightarrow> version list" where
  "cursor_delete_all [] store = store"
| "cursor_delete_all (v # vs) store = cursor_delete_all vs (idb_delete v_id (v_id v) store)"

definition deleteTrifle :: "database \<Rightarrow> string \<Rightarrow> database" where
  "deleteTrifle db trifleId =
     db\<lparr>trifles := idb_delete t_id trifleId (trifles db),
        versions := cursor_delete_all (idb_index_getAll v_trifle_id (versions db) trifleId)
                      (versions db)\<rparr>"

definition createVersion ::
  "database \<Rightarrow> int \<Rightarrow> string \<Rightarrow> string \<Rightarrow> string option \<Rightarrow> (error + version) \<times> database" where
  "createVersion db now trifleId hash label =
     (let version = \<lparr>v_id = versions_keygen db, v_trifle_id = trifleId, v_hash = hash,
                     v_timestamp = now,
                     v_label = (case label of None \<Rightarrow> ''session'' | Some l \<Rightarrow> l)\<rparr>
      in case idb_add v_id version (versions db) of
           None \<Rightarrow> (Inl ConstraintError, db)
         | Some store \<Rightarrow>
             (Inr version, db\<lparr>versions := store, versions_keygen := versions_keygen db + 1\<rparr>))"

text \<open>
  \<^verbatim>\<open>request.result.sort((a, b) => b.timestamp - a.timestamp)\<close>: a stable sort, largest
  timestamp first.
\<close>

definition getVersions :: "database \<Rightarrow> string \<Rightarrow> version list" where
  "getVersions db trifleId =
     sort_key (\<lambda>v. - v_timestamp v) (idb_index_getAll v_trifle_id (versions db) trifleId)"

text \<open>\<^verbatim>\<open>Array.prototype.slice(start)\<close>: a negative start counts from the end.\<close>

definition array_slice :: "'a list \<Rightarrow> int \<Rightarrow> 'a list" where
  "array_slice xs start =
     (if start < 0 then drop (nat (max (int (length xs) + start) 0)) xs else drop (nat start) xs)"

definition cleanupVersions :: "database \<Rightarrow> string \<Rightarrow> int option \<Rightarrow> nat \<times> database" where
  "cleanupVersions db trifleId keepCount =
     (let versions' = getVersions db trifleId;
          sessionVersions = filter (\<lambda>v. v_label v = ''session'') versions';
          toDelete = array_slice sessionVersions (case keepCount of None \<Rightarrow> 10 | Some k \<Rightarrow> k)
      in if length toDelete = 0 then (0, db)
         else (length toDelete,
               db\<lparr>versions := foldl (\<lambda>store v. idb_delete v_id (v_id v) store) (versions db) toDelete\<rparr>))"

text \<open>The list \<^verbatim>\<open>sessionVersions\<close> of \<^verbatim>\<open>cleanupVersions\<close>, as a function of the database.\<close>

definition session_versions :: "database \<Rightarrow> string \<Rightarrow> version list" where
  "session_versions db trifleId = filter (\<lambda>v. v_label v = ''session'') (getVersions db trifleId)"

section \<open>The save path of the editor\<close>

text \<open>
  \<^verbatim>\<open>saveCurrentFile\<close> of \<^verbatim>\<open>web/js/editor.js\<close> reads the state of the editor: the id of the
  open trifle, the current file, the dirty flag and the text in the editor.  It stores the
  text, fetches the data blob of the trifle, writes the new hash into the entry of the
  current file and calls \<^verbatim>\<open>updateTrifle\<close>.  Whatever is thrown on the way is caught and
  shown as an error.
\<close>

record file_entry =
  f_path :: string
  f_hash :: string
  f_content :: string

record editor_state =
  e_trifleId :: string
  e_currentFile :: "file_entry option"
  e_isDirty :: bool
  e_editorValue :: string

datatype saving_indicator = Unchanged | Saved | SaveFailed

text \<open>\<^verbatim>\<open>obj[key] = v\<close>: an existing property keeps its place, a new one goes last.\<close>

definition obj_set :: "(string \<times> jsval) list \<Rightarrow> string \<Rightarrow> jsval \<Rightarrow> (string \<times> jsval) list" where
  "obj_set kvs key v =
     (if key \<in> set (object_keys kvs)
      then map (\<lambda>kv. if fst kv = key then (key, v) else kv) kvs
      else kvs @ [(key, v)])"

text \<open>
  \<^verbatim>\<open>files.findIndex(f => f.path === path)\<close>: reading \<^verbatim>\<open>path\<close> of \<^verbatim>\<open>null\<close> or \<^verbatim>\<open>undefined\<close>
  throws; a value that is not an object has no such property.
\<close>

fun findIndex_path :: "string \<Rightarrow> jsval list \<Rightarrow> error + int" where
  "findIndex_path path [] = Inr (- 1)"
| "findIndex_path path (f # fs) =
     (if f = JNull \<or> f = JUndefined then Inl TypeError
      else if (case f of JObj kvs \<Rightarrow> obj_get kvs ''path'' = JStr path | _ \<Rightarrow> False) then Inr 0
      else (case findIndex_path path fs of
              Inl e \<Rightarrow> Inl e
            | Inr i \<Rightarrow> Inr (if i < 0 then - 1 else i + 1)))"

definition update_file_hash :: "jsval \<Rightarrow> string \<Rightarrow> string \<Rightarrow> error + jsval" where
  "update_file_hash trifleData path newHash =
     (case trifleData of
        JObj kvs \<Rightarrow>
          (case obj_get kvs ''files'' of
             JArr files \<Rightarrow>
               (case findIndex_path path files of
                  Inl e \<Rightarrow> Inl e
                | Inr fileIndex \<Rightarrow>
                    if fileIndex \<ge> 0
                    then Inr (JObj (obj_set kvs ''files''
                           (JArr (files[nat fileIndex :=
                              (case files ! nat fileIndex of
                                 JObj f \<Rightarrow> JObj (obj_set f ''hash'' (JStr newHash))
                               | other \<Rightarrow> other)]))))
                    else Inr trifleData)
           | _ \<Rightarrow> Inl TypeError)
      | _ \<Rightarrow> Inl TypeError)"

definition saveCurrentFile ::
  "database \<Rightarrow> int \<Rightarrow> editor_state \<Rightarrow> (saving_indicator \<times> editor_state) \<times> database" where
  "saveCurrentFile db now state =
     (case e_currentFile state of
        None \<Rightarrow> ((Unchanged, state), db)
      | Some file \<Rightarrow>
          if \<not> e_isDirty state then ((Unchanged, state), db)
          else
            (let content = e_editorValue state;
                 state1 = state\<lparr>e_currentFile := Some (file\<lparr>f_content := content\<rparr>)\<rparr>;
                 (newHash, db1) = storeContent db (JStr content) ''file'';
                 trifleData = getTrifleData db1 (e_trifleId state)
             in case update_file_hash trifleData (f_path file) newHash of
                  Inl e \<Rightarrow> ((SaveFailed, state1), db1)
                | Inr trifleData' \<Rightarrow>
                    (case updateTrifle db1 now (e_trifleId state) trifleData' of
                       (Inl e, db2) \<Rightarrow> ((SaveFailed, state1), db2)
                     | (Inr trifle, db2) \<Rightarrow>
                         ((Saved,
                           state1\<lparr>e_currentFile :=
                                     Some (file\<lparr>f_content := content, f_hash := newHash\<rparr>),
                                   e_isDirty := False\<rparr>),
                          db2))))"

section \<open>Histories of operations\<close>

text \<open>
  A state of the database is reached from the stores \<^verbatim>\<open>initDB\<close> creates by a sequence of
  calls of the mutating operations of \<^verbatim>\<open>TrifleDB\<close>, each with the values it reads from its
  environment.
\<close>

datatype op =
    StoreContent jsval string
  | CreateUser "8 word list" int string
  | UpdateUser int string jsval
  | CreateTrifle "8 word list" int string string "string option"
  | UpdateTrifle int string jsval
  | DeleteTrifle string
  | CreateVersion int string string "string option"
  | CleanupVersions string "int option"

fun step :: "database \<Rightarrow> op \<Rightarrow> database" where
  "step db (StoreContent data type) = snd (storeContent db data type)"
| "step db (CreateUser array now displayName) = snd (createUser db array now displayName)"
| "step db (UpdateUser now userId userData) = snd (updateUser db now userId userData)"
| "step db (CreateTrifle array now ownerId name description) =
     snd (createTrifle db array now ownerId name description)"
| "step db (UpdateTrifle now trifleId trifleData) = snd (updateTrifle db now trifleId trifleData)"
| "step db (DeleteTrifle trifleId) = deleteTrifle db trifleId"
| "step db (CreateVersion now trifleId hash label) = snd (createVersion db now trifleId hash label)"
| "step db (CleanupVersions trifleId keepCount) = snd (cleanupVersions db trifleId keepCount)"

definition run :: "database \<Rightarrow> op list \<Rightarrow> database" where
  "run db ops = foldl step db ops"

text \<open>
  What IndexedDB guarantees of the stores: one record per primary key, and every key the
  generator of \<^verbatim>\<open>versions\<close> has given out is below its current value.
\<close>

definition idb_ok :: "database \<Rightarrow> bool" where
  "idb_ok db \<longleftrightarrow>
     distinct (map u_id (users db)) \<and> distinct (map t_id (trifles db))
     \<and> distinct (map c_hash (content db)) \<and> distinct (map v_id (versions db))
     \<and> list_all (\<lambda>v. v_id v < versions_keygen db) (versions db)"

definition clocks_ok :: "database \<Rightarrow> bool" where
  "clocks_ok db \<longleftrightarrow>
     list_all (\<lambda>u. 1 \<le> u_logical_clock u) (users db)
     \<and> list_all (\<lambda>t. 1 \<le> t_logical_clock t) (trifles db)"

section \<open>The specification's canonical serialization\<close>

text \<open>
  The reference, written from the words of the specification: object keys sorted
  lexicographically at every level, arrays in their order, \<^verbatim>\<open>null\<close> as the literal \<^verbatim>\<open>null\<close>,
  fields whose value is \<^verbatim>\<open>undefined\<close> left out; the text is UTF-8 encoded, hashed with
  SHA-256 and written as lowercase hexadecimal.  A string payload is hashed as it is.  The
  specification's payloads are JSON values whose object fields may be \<^verbatim>\<open>undefined\<close>
  (\<open>json_payload\<close>); it gives no serialization to \<^verbatim>\<open>undefined\<close> anywhere else, and
  \<open>spec_canonicalize\<close> is the empty text there.
\<close>

fun json_payload :: "jsval \<Rightarrow> bool" where
  "json_payload JUndefined = False"
| "json_payload (JArr xs) = list_all json_payload xs"
| "json_payload (JObj kvs) = list_all (\<lambda>kv. snd kv = JUndefined \<or> json_payload (snd kv)) kvs"
| "json_payload _ = True"





text \<open>
  Two values are the same up to representation when they differ only in the order of
  object keys and in fields that are present with the value \<^verbatim>\<open>undefined\<close> on one side and
  absent on the other, at any depth.
\<close>

function (sequential) js_equiv :: "jsval \<Rightarrow> jsval \<Rightarrow> bool" where
  "js_equiv (JArr xs) (JArr ys) = list_all2 js_equiv xs ys"
| "js_equiv (JObj a) (JObj b) =
     (\<forall>key \<in> set (object_keys a) \<union> set (object_keys b).
         js_equiv (obj_get a key) (obj_get b key))"
| "js_equiv x y = (x = y)"
  by pat_completeness auto
termination
proof (relation "measure (\<lambda>p. size (fst p))", goal_cases)
  case 1
  show ?case by simp
next
  case (2 xs ys x y)
  then show ?case by (simp add: size_list_estimation' less_Suc_eq_le)
next
  case (3 a b key)
  have "size (obj_get a key) \<le> size_list (size_prod (\<lambda>_. 0) size) a"
    by (induction a) (auto simp: obj_get_def)
  then show ?case by (simp add: less_Suc_eq_le)
qed

section \<open>Properties of \<^verbatim>\<open>canonicalJSON\<close>\<close>

lemma canonicalJSON_None_iff: "canonicalJSON v = None \<longleftrightarrow> v = JUndefined"
  by (cases v) simp_all




lemma obj_get_defined_key:
  assumes "obj_get kvs k \<noteq> JUndefined"
  shows "k \<in> set (object_keys kvs)"
proof (rule ccontr)
  assume "k \<notin> set (object_keys kvs)"
  then have "map_of kvs k = None"
    by (simp add: object_keys_def map_of_eq_None_iff)
  with assms show False by (simp add: obj_get_def)
qed


lemma canonicalJSON_obj_keys:
  "canonicalJSON (JObj kvs) =
     Some (''{'' @ join '',''
        (map (\<lambda>k. Some (quote_string k @ '':'' @ the (canonicalJSON (obj_get kvs k))))
             (sort (filter (\<lambda>k. obj_get kvs k \<noteq> JUndefined) (object_keys kvs)))) @ ''}'')"
proof -
  let ?g = "\<lambda>key. case canonicalJSON (obj_get kvs key) of
                None \<Rightarrow> None | Some v \<Rightarrow> Some (quote_string key @ '':'' @ v)"
  have g: "?g k \<noteq> None \<longleftrightarrow> obj_get kvs k \<noteq> JUndefined" for k
    using canonicalJSON_None_iff [of "obj_get kvs k"] by (auto split: option.splits)
  have "filter (\<lambda>pair. pair \<noteq> None) (map ?g (sort (object_keys kvs)))
        = map ?g (filter (\<lambda>k. ?g k \<noteq> None) (sort (object_keys kvs)))"
    by (simp only: filter_map o_def)
  also have "\<dots> = map ?g (filter (\<lambda>k. obj_get kvs k \<noteq> JUndefined) (sort (object_keys kvs)))"
    by (simp only: g)
  also have "\<dots> = map ?g (sort (filter (\<lambda>k. obj_get kvs k \<noteq> JUndefined) (object_keys kvs)))"
    by (simp add: filter_sort)
  also have "\<dots> = map (\<lambda>k. Some (quote_string k @ '':'' @ the (canonicalJSON (obj_get kvs k))))
                     (sort (filter (\<lambda>k. obj_get kvs k \<noteq> JUndefined) (object_keys kvs)))"
    by (rule map_cong) (auto simp: canonicalJSON_None_iff split: option.splits)
  finally show ?thesis by (simp only: canonicalJSON.simps)
qed




subsection \<open>Values that are the same up to representation\<close>

lemma js_equiv_undefined: "js_equiv x y \<Longrightarrow> x = JUndefined \<longleftrightarrow> y = JUndefined"
  by (cases x; cases y) auto

lemma js_equiv_string: "js_equiv x y \<Longrightarrow> x = JStr s \<longleftrightarrow> y = JStr s"
  by (cases x; cases y) auto

lemma wf_value_obj_get: "wf_value (JObj kvs) \<Longrightarrow> wf_value (obj_get kvs k)"
  by (auto simp: obj_get_def list_all_iff split: option.splits dest!: map_of_SomeD)

lemma canonicalJSON_equiv:
  "wf_value a \<Longrightarrow> wf_value b \<Longrightarrow> js_equiv a b \<Longrightarrow> canonicalJSON a = canonicalJSON b"
proof (induction a b rule: js_equiv.induct)
  case (1 xs ys)
  from 1(4) have "list_all2 js_equiv xs ys" by simp
  then have "map canonicalJSON xs = map canonicalJSON ys"
    using 1(1,2,3)
  proof (induction xs ys rule: list_all2_induct)
    case Nil
    show ?case by simp
  next
    case (Cons x xs y ys)
    have "canonicalJSON x = canonicalJSON y"
      using Cons.prems Cons.hyps(1) by simp
    moreover have "map canonicalJSON xs = map canonicalJSON ys"
      using Cons.prems by (intro Cons.IH) simp_all
    ultimately show ?case by simp
  qed
  then show ?case by simp
next
  case (2 a b)
  let ?da = "\<lambda>k. obj_get a k \<noteq> JUndefined" and ?db = "\<lambda>k. obj_get b k \<noteq> JUndefined"
  have eqv: "js_equiv (obj_get a k) (obj_get b k)"
    if "k \<in> set (object_keys a) \<union> set (object_keys b)" for k
    using 2(4) that by simp
  have def: "?da k \<longleftrightarrow> ?db k" for k
  proof (cases "k \<in> set (object_keys a) \<union> set (object_keys b)")
    case True
    then show ?thesis using js_equiv_undefined [OF eqv] by simp
  next
    case False
    then show ?thesis using obj_get_defined_key [of a k] obj_get_defined_key [of b k] by blast
  qed
  have "set (filter ?da (object_keys a)) = set (filter ?db (object_keys b))"
    using def obj_get_defined_key by auto
  moreover have "distinct (filter ?da (object_keys a))" "distinct (filter ?db (object_keys b))"
    using 2(2,3) by (simp_all add: object_keys_def)
  ultimately have keys: "sort (filter ?da (object_keys a)) = sort (filter ?db (object_keys b))"
    by (intro sorted_distinct_set_unique) simp_all
  have "map (\<lambda>k. Some (quote_string k @ '':'' @ the (canonicalJSON (obj_get a k))))
            (sort (filter ?db (object_keys b)))
        = map (\<lambda>k. Some (quote_string k @ '':'' @ the (canonicalJSON (obj_get b k))))
            (sort (filter ?db (object_keys b)))"
  proof (rule map_cong [OF refl])
    fix k assume "k \<in> set (sort (filter ?db (object_keys b)))"
    then have k: "k \<in> set (object_keys a) \<union> set (object_keys b)" by simp
    have "canonicalJSON (obj_get a k) = canonicalJSON (obj_get b k)"
      using 2(1) [OF k] wf_value_obj_get [OF 2(2)] wf_value_obj_get [OF 2(3)] eqv [OF k]
      by simp
    then show "Some (quote_string k @ '':'' @ the (canonicalJSON (obj_get a k)))
        = Some (quote_string k @ '':'' @ the (canonicalJSON (obj_get b k)))"
      by simp
  qed
  then show ?case
    by (simp only: canonicalJSON_obj_keys keys)
qed simp_all

lemma js_equiv_refl: "js_equiv a a"
proof (induction a rule: canonicalJSON.induct)
  case (6 xs)
  then show ?case by (simp add: list_all2_same)
next
  case (7 kvs)
  then show ?case by simp
qed simp_all

lemma js_equiv_reorder:
  assumes "distinct (map fst kvs)" "distinct (map fst kvs')" "set kvs = set kvs'"
  shows "js_equiv (JObj kvs) (JObj kvs')"
proof -
  have "map_of kvs = map_of kvs'"
    using assms by (simp add: map_of_inject_set)
  then have "obj_get kvs k = obj_get kvs' k" for k
    by (simp add: obj_get_def)
  then show ?thesis by (simp add: js_equiv_refl)
qed

lemma js_equiv_drop_undefined:
  assumes "distinct (map fst kvs)"
  shows "js_equiv (JObj kvs) (JObj (filter (\<lambda>kv. snd kv \<noteq> JUndefined) kvs))"
proof -
  have "obj_get (filter (\<lambda>kv. snd kv \<noteq> JUndefined) kvs) k = obj_get kvs k" for k
    using assms
  proof (induction kvs)
    case Nil
    show ?case by simp
  next
    case (Cons kv kvs)
    then have "k = fst kv \<Longrightarrow> map_of kvs k = None"
      and "k = fst kv \<Longrightarrow> map_of (filter (\<lambda>kv. snd kv \<noteq> JUndefined) kvs) k = None"
      by (force simp: map_of_eq_None_iff)+
    with Cons show ?case
      by (cases kv) (auto simp: obj_get_def)
  qed
  then show ?thesis by (simp add: js_equiv_refl)
qed

lemma computeHash_equiv:
  assumes "wf_value a" "wf_value b" "js_equiv a b"
  shows "computeHash a = computeHash b"
proof (cases "\<exists>s. a = JStr s")
  case True
  then show ?thesis using assms(3) js_equiv_string by auto
next
  case False
  then have "\<not> (\<exists>s. b = JStr s)" using assms(3) js_equiv_string by auto
  with False canonicalJSON_equiv [OF assms] show ?thesis
    by (cases a; cases b) (simp_all add: computeHash_def)
qed

text \<open>The two cases by name: another order of the keys, and fields that are \<^verbatim>\<open>undefined\<close>.\<close>

corollary computeHash_key_order:
  assumes "wf_value (JObj kvs)" "distinct (map fst kvs')" "set kvs = set kvs'"
  shows "computeHash (JObj kvs) = computeHash (JObj kvs')"
proof -
  have "wf_value (JObj kvs')"
    using assms by (simp add: list_all_iff)
  moreover have "js_equiv (JObj kvs) (JObj kvs')"
    using assms by (intro js_equiv_reorder) simp_all
  ultimately show ?thesis
    using assms(1) by (intro computeHash_equiv)
qed

corollary computeHash_undefined_fields:
  assumes "wf_value (JObj kvs)"
  shows "computeHash (JObj kvs) = computeHash (JObj (filter (\<lambda>kv. snd kv \<noteq> JUndefined) kvs))"
proof -
  have "wf_value (JObj (filter (\<lambda>kv. snd kv \<noteq> JUndefined) kvs))"
    using assms by (simp add: list_all_iff distinct_map_filter)
  moreover have "js_equiv (JObj kvs) (JObj (filter (\<lambda>kv. snd kv \<noteq> JUndefined) kvs))"
    using assms by (intro js_equiv_drop_undefined) simp
  ultimately show ?thesis
    using assms by (intro computeHash_equiv)
qed

subsection \<open>The shape of the hash\<close>















text \<open>The blobs \<^verbatim>\<open>createUser\<close> and \<^verbatim>\<open>createTrifle\<close> store are payloads of the specification.\<close>

lemma new_userData_payload:
  "wf_value (new_userData displayName) \<and> json_payload (new_userData displayName)"
  by (simp add: new_userData_def)

lemma new_trifleData_payload:
  "wf_value (new_trifleData name description mainPyHash)
   \<and> json_payload (new_trifleData name description mainPyHash)"
  by (simp add: new_trifleData_def)



text \<open>
  Claim C2.  Hashing is deterministic and independent of the representation:
  \<^verbatim>\<open>computeHash\<close> reads nothing but its argument, and two values that are equal up to the
  order of object keys and up to fields whose value is \<^verbatim>\<open>undefined\<close> have the same
  \<^verbatim>\<open>canonicalJSON\<close> and the same \<^verbatim>\<open>computeHash\<close>.
\<close>

theorem computeHash_representation_independent:
  "wf_value a \<Longrightarrow> wf_value b \<Longrightarrow> js_equiv a b \<Longrightarrow>
     canonicalJSON a = canonicalJSON b \<and> computeHash a = computeHash b"
  using canonicalJSON_equiv [of a b] computeHash_equiv [of a b]
  by blast

theorem computeHash_representation_independent_witness:
  "wf_value (JObj [(''a'', JNum 1), (''b'', JUndefined), (''c'', JArr [JObj []])])
   \<and> wf_value (JObj [(''c'', JArr [JObj [(''z'', JUndefined)]]), (''a'', JNum 1)])
   \<and> js_equiv (JObj [(''a'', JNum 1), (''b'', JUndefined), (''c'', JArr [JObj []])])
               (JObj [(''c'', JArr [JObj [(''z'', JUndefined)]]), (''a'', JNum 1)])
   \<and> canonicalJSON (JObj [(''a'', JNum 1), (''b'', JUndefined), (''c'', JArr [JObj []])])
       = canonicalJSON (JObj [(''c'', JArr [JObj [(''z'', JUndefined)]]), (''a'', JNum 1)])
   \<and> computeHash (JObj [(''a'', JNum 1), (''b'', JUndefined), (''c'', JArr [JObj []])])
       = computeHash (JObj [(''c'', JArr [JObj [(''z'', JUndefined)]]), (''a'', JNum 1)])"
proof -
  let ?a = "JObj [(''a'', JNum 1), (''b'', JUndefined), (''c'', JArr [JObj []])]"
  let ?b = "JObj [(''c'', JArr [JObj [(''z'', JUndefined)]]), (''a'', JNum 1)]"
  have wa: "wf_value ?a" and wb: "wf_value ?b"
    by simp_all
  have e: "js_equiv ?a ?b"
    by code_simp
  show ?thesis
    using computeHash_representation_independent [OF wa wb e] wa wb e by blast
qed

section \<open>Canonical form and hash: collisions on arrays that hold \<^verbatim>\<open>undefined\<close>\<close>

lemma show_nat_digit: "n < 10 \<Longrightarrow> show_nat n = [hexdigit n]"
  by (simp add: show_nat.simps)

text \<open>
  Claim C9.  \<^verbatim>\<open>canonicalJSON\<close> is not injective on arrays that contain \<^verbatim>\<open>undefined\<close>: the
  element serializes to \<^verbatim>\<open>undefined\<close>, which \<^verbatim>\<open>join\<close> renders as the empty string.  The
  distinct payloads \<^verbatim>\<open>[undefined]\<close> and \<^verbatim>\<open>[]\<close> both canonicalize to \<^verbatim>\<open>[]\<close> and so have the
  same \<^verbatim>\<open>computeHash\<close>, and \<^verbatim>\<open>[1, undefined]\<close> canonicalizes to \<^verbatim>\<open>[1,]\<close>, which is not JSON.
\<close>

theorem canonicalJSON_array_undefined_collision:
  "JArr [JUndefined] \<noteq> JArr []
   \<and> canonicalJSON (JArr [JUndefined]) = Some ''[]''
   \<and> canonicalJSON (JArr []) = Some ''[]''
   \<and> computeHash (JArr [JUndefined]) = computeHash (JArr [])
   \<and> canonicalJSON (JArr [JNum 1, JUndefined]) = Some ''[1,]''
   \<and> \<not> inj canonicalJSON \<and> \<not> inj computeHash"
proof -
  have eq: "canonicalJSON (JArr [JUndefined]) = canonicalJSON (JArr [])"
    by simp
  have h: "computeHash (JArr [JUndefined]) = computeHash (JArr [])"
    by (simp add: computeHash_def)
  have "\<not> inj canonicalJSON"
  proof
    assume "inj canonicalJSON"
    then have "JArr [JUndefined] = JArr []" using eq by (rule injD)
    then show False by simp
  qed
  moreover have "\<not> inj computeHash"
  proof
    assume "inj computeHash"
    then have "JArr [JUndefined] = JArr []" using h by (rule injD)
    then show False by simp
  qed
  moreover have "canonicalJSON (JArr [JNum 1, JUndefined]) = Some ''[1,]''"
    by (simp add: show_int_def show_nat_digit hexdigit_def)
  ultimately show ?thesis using h by simp
qed

section \<open>Properties of the database operations\<close>

subsection \<open>Object stores\<close>

lemma find_insort_key_other:
  "\<not> P x \<Longrightarrow> find P (insort_key f x xs) = find P xs"
  by (induction xs) simp_all

lemma find_insort_key_new:
  "P x \<Longrightarrow> \<forall>y\<in>set xs. \<not> P y \<Longrightarrow> find P (insort_key f x xs) = Some x"
  by (induction xs) simp_all

lemma find_filter_other:
  "(\<And>x. P x \<Longrightarrow> Q x) \<Longrightarrow> find P (filter Q xs) = find P xs"
  by (induction xs) auto

lemma idb_get_Some: "idb_get key store k = Some r \<Longrightarrow> key r = k \<and> r \<in> set store"
  by (auto simp: idb_get_def find_Some_iff)

lemma idb_get_None: "idb_get key store k = None \<longleftrightarrow> k \<notin> key ` set store"
  by (auto simp: idb_get_def find_None_iff)

lemma idb_get_put:
  "idb_get key (idb_put key r store) k = (if k = key r then Some r else idb_get key store k)"
  by (auto simp: idb_get_def idb_put_def idb_delete_def find_insort_key_other
      find_insort_key_new find_filter_other)

lemma idb_get_add:
  "idb_add key r store = Some store' \<Longrightarrow>
     idb_get key store' k = (if k = key r then Some r else idb_get key store k)"
  by (auto simp: idb_get_def idb_add_def find_insort_key_other image_iff
      intro!: find_insort_key_new split: if_splits)

lemma idb_get_delete:
  "idb_get key (idb_delete key k store) k' = (if k' = k then None else idb_get key store k')"
  by (induction store) (auto simp: idb_get_def idb_delete_def)

lemma idb_put_idem: "idb_put key r (idb_put key r store) = idb_put key r store"
  by (simp add: idb_put_def idb_delete_def filter_insort_triv)

lemma set_idb_put: "set (idb_put key r store) = insert r {x \<in> set store. key x \<noteq> key r}"
  by (auto simp: idb_put_def idb_delete_def set_insort_key)

lemma filter_key_idb_put:
  "filter (\<lambda>x. key x = key r) (idb_put key r store) = [r]"
proof -
  have "filter (\<lambda>x. key x = key r) (insort_key key r xs) = [r]"
    if "\<forall>x\<in>set xs. key x \<noteq> key r" for xs
    using that by (induction xs) auto
  then show ?thesis by (simp add: idb_put_def idb_delete_def)
qed

lemma distinct_map_insort_key:
  "distinct (map key (insort_key key r xs)) \<longleftrightarrow> key r \<notin> key ` set xs \<and> distinct (map key xs)"
  by (induction xs) (auto simp: set_insort_key)

lemma distinct_idb_put:
  "distinct (map key store) \<Longrightarrow> distinct (map key (idb_put key r store))"
  by (auto simp: idb_put_def idb_delete_def distinct_map_insort_key distinct_map_filter)

lemma distinct_idb_add:
  "idb_add key r store = Some store' \<Longrightarrow> distinct (map key store) \<Longrightarrow> distinct (map key store')"
  by (auto simp: idb_add_def distinct_map_insort_key split: if_splits)

lemma distinct_idb_delete:
  "distinct (map key store) \<Longrightarrow> distinct (map key (idb_delete key k store))"
  by (simp add: idb_delete_def distinct_map_filter)

subsection \<open>Deleting a list of records by primary key\<close>

lemma foldl_idb_delete:
  "foldl (\<lambda>store v. idb_delete key (key v) store) store vs
     = filter (\<lambda>x. key x \<notin> key ` set vs) store"
proof (induction vs arbitrary: store)
  case Nil
  show ?case by simp
next
  case (Cons v vs)
  show ?case
    unfolding foldl_Cons Cons.IH
    by (auto simp: idb_delete_def intro: filter_cong)
qed

lemma cursor_delete_all_filter:
  "cursor_delete_all vs store = filter (\<lambda>x. v_id x \<notin> v_id ` set vs) store"
proof (induction vs arbitrary: store)
  case Nil
  show ?case by simp
next
  case (Cons v vs)
  show ?case
    unfolding cursor_delete_all.simps Cons.IH
    by (auto simp: idb_delete_def intro: filter_cong)
qed

lemma filter_by_key_of_distinct:
  assumes "distinct (map key store)"
  shows "filter (\<lambda>x. key x \<notin> key ` set (filter P store)) store = filter (\<lambda>x. \<not> P x) store"
proof (rule filter_cong [OF refl])
  fix x assume x: "x \<in> set store"
  have "y = x" if "y \<in> set store" "key y = key x" for y
    using assms that x by (meson distinct_map inj_onD)
  then show "(key x \<notin> key ` set (filter P store)) = (\<not> P x)"
    using x by auto
qed

subsection \<open>The stores stay well-formed\<close>

lemma storeContent_fields [simp]:
  "fst (storeContent db data type) = computeHash data"
  "content (snd (storeContent db data type))
     = idb_put c_hash \<lparr>c_hash = computeHash data, c_data = data, c_type = type\<rparr> (content db)"
  "users (snd (storeContent db data type)) = users db"
  "trifles (snd (storeContent db data type)) = trifles db"
  "versions (snd (storeContent db data type)) = versions db"
  "versions_keygen (snd (storeContent db data type)) = versions_keygen db"
  by (simp_all add: storeContent_def Let_def)

lemma idb_ok_storeContent: "idb_ok db \<Longrightarrow> idb_ok (snd (storeContent db data type))"
  by (simp add: idb_ok_def distinct_idb_put)

lemma idb_ok_createUser: "idb_ok db \<Longrightarrow> idb_ok (snd (createUser db array now displayName))"
  using idb_ok_storeContent
  by (auto simp: createUser_def Let_def idb_ok_def split_beta distinct_idb_put
      split: option.splits dest: distinct_idb_add)

lemma idb_ok_updateUser: "idb_ok db \<Longrightarrow> idb_ok (snd (updateUser db now userId userData))"
  by (auto simp: updateUser_def Let_def idb_ok_def split_beta distinct_idb_put
      split: option.splits)

lemma idb_ok_createTrifle:
  "idb_ok db \<Longrightarrow> idb_ok (snd (createTrifle db array now ownerId name description))"
  by (auto simp: createTrifle_def Let_def idb_ok_def split_beta distinct_idb_put
      split: option.splits dest: distinct_idb_add)

lemma idb_ok_updateTrifle: "idb_ok db \<Longrightarrow> idb_ok (snd (updateTrifle db now trifleId trifleData))"
  by (auto simp: updateTrifle_def Let_def idb_ok_def split_beta distinct_idb_put
      split: option.splits)

lemma idb_ok_deleteTrifle: "idb_ok db \<Longrightarrow> idb_ok (deleteTrifle db trifleId)"
  by (auto simp: deleteTrifle_def idb_ok_def distinct_idb_delete cursor_delete_all_filter
      distinct_map_filter list_all_iff)

lemma idb_ok_createVersion:
  "idb_ok db \<Longrightarrow> idb_ok (snd (createVersion db now trifleId hash label))"
  by (auto simp: createVersion_def Let_def idb_ok_def idb_add_def distinct_map_insort_key
      set_insort_key list_all_iff split: option.splits if_splits)

lemma idb_ok_cleanupVersions:
  "idb_ok db \<Longrightarrow> idb_ok (snd (cleanupVersions db trifleId keepCount))"
  by (auto simp: cleanupVersions_def Let_def idb_ok_def foldl_idb_delete
      distinct_map_filter list_all_iff)

lemma idb_ok_step: "idb_ok db \<Longrightarrow> idb_ok (step db op)"
  by (cases op)
     (simp_all add: idb_ok_storeContent idb_ok_createUser idb_ok_updateUser idb_ok_createTrifle
        idb_ok_updateTrifle idb_ok_deleteTrifle idb_ok_createVersion idb_ok_cleanupVersions)

lemma idb_ok_run: "idb_ok db \<Longrightarrow> idb_ok (run db ops)"
  unfolding run_def by (induction ops arbitrary: db) (simp_all add: idb_ok_step)

lemma idb_ok_initDB: "idb_ok initDB"
  by (simp add: idb_ok_def initDB_def)

subsection \<open>The content store\<close>

lemma storeContent_twice:
  "snd (storeContent (snd (storeContent db data type)) data type) = snd (storeContent db data type)"
  by (simp add: storeContent_def Let_def idb_put_idem)

lemma getContent_storeContent:
  "getContent (snd (storeContent db data type)) h
     = (if h = computeHash data then data else getContent db h)"
  by (simp add: getContent_def idb_get_put)

lemma getContent_missing: "h \<notin> c_hash ` set (content db) \<Longrightarrow> getContent db h = JNull"
  using idb_get_None [of c_hash "content db" h] by (simp add: getContent_def)

text \<open>
  Claim C3.  The content store deduplicates and \<^verbatim>\<open>storeContent\<close> is idempotent: storing a
  payload a second time returns the same hash and leaves the database as the first call
  left it, with exactly one record under that hash; \<^verbatim>\<open>storeContent\<close> has no error result;
  \<^verbatim>\<open>getContent\<close> of the returned hash gives the payload back, and \<^verbatim>\<open>getContent\<close> of a hash
  with no record gives \<^verbatim>\<open>null\<close>.
\<close>

theorem storeContent_dedup_idempotent:
  "fst (storeContent db P kind) = computeHash P
   \<and> fst (storeContent (snd (storeContent db P kind)) P kind) = fst (storeContent db P kind)
   \<and> snd (storeContent (snd (storeContent db P kind)) P kind) = snd (storeContent db P kind)
   \<and> filter (\<lambda>r. c_hash r = computeHash P) (content (snd (storeContent db P kind)))
       = [\<lparr>c_hash = computeHash P, c_data = P, c_type = kind\<rparr>]
   \<and> getContent (snd (storeContent db P kind)) (fst (storeContent db P kind)) = P
   \<and> (h \<notin> c_hash ` set (content db) \<longrightarrow> getContent db h = JNull)"
  using filter_key_idb_put [of c_hash "\<lparr>c_hash = computeHash P, c_data = P, c_type = kind\<rparr>" "content db"]
  by (simp add: storeContent_twice getContent_storeContent getContent_missing)

theorem storeContent_dedup_idempotent_witness:
  "''00'' \<notin> c_hash ` set (content initDB)
   \<and> getContent initDB ''00'' = JNull
   \<and> fst (storeContent (snd (storeContent initDB (JStr ''hello'') ''file'')) (JStr ''hello'') ''file'')
       = fst (storeContent initDB (JStr ''hello'') ''file'')
   \<and> content (snd (storeContent (snd (storeContent initDB (JStr ''hello'') ''file'')) (JStr ''hello'') ''file''))
       = [\<lparr>c_hash = computeHash (JStr ''hello''), c_data = JStr ''hello'', c_type = ''file''\<rparr>]
   \<and> getContent (snd (storeContent initDB (JStr ''hello'') ''file''))
         (fst (storeContent initDB (JStr ''hello'') ''file'')) = JStr ''hello''"
proof -
  have h: "''00'' \<notin> c_hash ` set (content initDB)"
    by (simp add: initDB_def)
  have c: "content (snd (storeContent initDB (JStr ''hello'') ''file''))
       = [\<lparr>c_hash = computeHash (JStr ''hello''), c_data = JStr ''hello'', c_type = ''file''\<rparr>]"
    by (simp add: initDB_def idb_put_def idb_delete_def)
  show ?thesis
    using storeContent_dedup_idempotent [of initDB "JStr ''hello''" "''file''" "''00''"] h c
    by simp
qed

text \<open>
  Claim C10.  The content store is keyed on the hash alone and \<^verbatim>\<open>storeContent\<close> writes with
  \<^verbatim>\<open>put\<close>: no reachable state holds two records of one hash, the record just written is
  always the one found under its hash, and storing the same payload again with another type
  leaves the payload and replaces the type by that of the last caller.
\<close>

theorem content_store_last_writer_wins:
  "distinct (map c_hash (content (run initDB ops)))
   \<and> idb_get c_hash (content (snd (storeContent db P kind1))) (computeHash P)
       = Some \<lparr>c_hash = computeHash P, c_data = P, c_type = kind1\<rparr>
   \<and> idb_get c_hash (content (snd (storeContent (snd (storeContent db P kind1)) P kind2)))
        (computeHash P)
       = Some \<lparr>c_hash = computeHash P, c_data = P, c_type = kind2\<rparr>
   \<and> filter (\<lambda>r. c_hash r = computeHash P)
        (content (snd (storeContent (snd (storeContent db P kind1)) P kind2)))
       = [\<lparr>c_hash = computeHash P, c_data = P, c_type = kind2\<rparr>]"
  using idb_ok_run [OF idb_ok_initDB, of ops]
    filter_key_idb_put [of c_hash "\<lparr>c_hash = computeHash P, c_data = P, c_type = kind2\<rparr>"]
  by (simp add: idb_ok_def idb_get_put)

theorem content_store_last_writer_wins_witness:
  "content (run initDB [StoreContent (JStr ''x'') ''file'', StoreContent (JStr ''x'') ''trifle''])
     = [\<lparr>c_hash = computeHash (JStr ''x''), c_data = JStr ''x'', c_type = ''trifle''\<rparr>]
   \<and> distinct (map c_hash
        (content (run initDB [StoreContent (JStr ''x'') ''file'', StoreContent (JStr ''x'') ''trifle''])))"
proof -
  have "content (run initDB [StoreContent (JStr ''x'') ''file'', StoreContent (JStr ''x'') ''trifle''])
     = [\<lparr>c_hash = computeHash (JStr ''x''), c_data = JStr ''x'', c_type = ''trifle''\<rparr>]"
    by (simp add: run_def initDB_def idb_put_def idb_delete_def)
  then show ?thesis
    using content_store_last_writer_wins
      [of "[StoreContent (JStr ''x'') ''file'', StoreContent (JStr ''x'') ''trifle'']"]
    by simp
qed

subsection \<open>Stores an operation does not touch\<close>

lemma createUser_frame [simp]:
  "trifles (snd (createUser db array now displayName)) = trifles db"
  "versions (snd (createUser db array now displayName)) = versions db"
  "versions_keygen (snd (createUser db array now displayName)) = versions_keygen db"
  by (simp_all add: createUser_def Let_def split_beta split: option.splits)

lemma updateUser_frame [simp]:
  "trifles (snd (updateUser db now userId userData)) = trifles db"
  "versions (snd (updateUser db now userId userData)) = versions db"
  "versions_keygen (snd (updateUser db now userId userData)) = versions_keygen db"
  by (simp_all add: updateUser_def Let_def split_beta split: option.splits)

lemma createTrifle_frame [simp]:
  "users (snd (createTrifle db array now ownerId name description)) = users db"
  "versions (snd (createTrifle db array now ownerId name description)) = versions db"
  "versions_keygen (snd (createTrifle db array now ownerId name description)) = versions_keygen db"
  by (simp_all add: createTrifle_def Let_def split_beta split: option.splits)

lemma updateTrifle_frame [simp]:
  "users (snd (updateTrifle db now trifleId trifleData)) = users db"
  "versions (snd (updateTrifle db now trifleId trifleData)) = versions db"
  "versions_keygen (snd (updateTrifle db now trifleId trifleData)) = versions_keygen db"
  by (simp_all add: updateTrifle_def Let_def split_beta split: option.splits)

lemma deleteTrifle_frame [simp]:
  "users (deleteTrifle db trifleId) = users db"
  "content (deleteTrifle db trifleId) = content db"
  "versions_keygen (deleteTrifle db trifleId) = versions_keygen db"
  by (simp_all add: deleteTrifle_def)

lemma createVersion_frame [simp]:
  "users (snd (createVersion db now trifleId hash label)) = users db"
  "trifles (snd (createVersion db now trifleId hash label)) = trifles db"
  "content (snd (createVersion db now trifleId hash label)) = content db"
  by (simp_all add: createVersion_def Let_def split: option.splits)

lemma cleanupVersions_frame [simp]:
  "users (snd (cleanupVersions db trifleId keepCount)) = users db"
  "trifles (snd (cleanupVersions db trifleId keepCount)) = trifles db"
  "content (snd (cleanupVersions db trifleId keepCount)) = content db"
  "versions_keygen (snd (cleanupVersions db trifleId keepCount)) = versions_keygen db"
  by (simp_all add: cleanupVersions_def Let_def)

subsection \<open>Pointers: creation and update\<close>

lemma idb_add_fresh: "idb_add key r store = Some store' \<Longrightarrow> idb_get key store (key r) = None"
  by (simp add: idb_add_def idb_get_None split: if_splits)

lemma set_idb_add: "idb_add key r store = Some store' \<Longrightarrow> set store' = insert r (set store)"
  by (auto simp: idb_add_def set_insort_key split: if_splits)

lemma createUser_Inr:
  assumes "createUser db array now displayName = (Inr u, db')"
  shows "u_logical_clock u = 1" and "u_id u = generateId ''user'' array"
    and "getUser db' (u_id u) = Some u" and "getUser db (u_id u) = None"
  using assms
  by (auto simp: createUser_def Let_def split_beta getUser_def idb_get_add
      split: option.splits dest: idb_add_fresh)

lemma createTrifle_Inr:
  assumes "createTrifle db array now ownerId name description = (Inr t, db')"
  shows "t_logical_clock t = 1" and "t_id t = generateId ''trifle'' array"
    and "getTrifle db' (t_id t) = Some t" and "getTrifle db (t_id t) = None"
  using assms
  by (auto simp: createTrifle_def Let_def split_beta getTrifle_def idb_get_add
      split: option.splits dest: idb_add_fresh)

lemma updateUser_Inr:
  assumes "updateUser db now userId userData = (Inr u', db')"
  shows "\<exists>u. getUser db userId = Some u
           \<and> u' = u\<lparr>u_current_hash := computeHash userData, u_last_modified := now,
                    u_logical_clock := u_logical_clock u + 1\<rparr>"
    and "getUser db' userId = Some u'"
  using assms
  by (auto simp: updateUser_def Let_def split_beta getUser_def idb_get_put
      split: option.splits dest: idb_get_Some)

lemma updateTrifle_Inr:
  assumes "updateTrifle db now trifleId trifleData = (Inr t', db')"
  shows "\<exists>t. getTrifle db trifleId = Some t
           \<and> t' = t\<lparr>t_current_hash := computeHash trifleData, t_last_modified := now,
                    t_logical_clock := t_logical_clock t + 1\<rparr>"
    and "getTrifle db' trifleId = Some t'"
  using assms
  by (auto simp: updateTrifle_def Let_def split_beta getTrifle_def idb_get_put
      split: option.splits dest: idb_get_Some)

subsection \<open>What one operation does to a pointer\<close>

lemma getUser_step:
  assumes "getUser db userId = Some u"
  shows "getUser (step db op) userId = Some u
         \<or> (\<exists>now userData. op = UpdateUser now userId userData
              \<and> getUser (step db op) userId
                  = Some (u\<lparr>u_current_hash := computeHash userData, u_last_modified := now,
                            u_logical_clock := u_logical_clock u + 1\<rparr>))"
proof (cases op)
  case (CreateUser array now displayName)
  then show ?thesis using assms
    by (auto simp: createUser_def Let_def split_beta getUser_def idb_get_add
        split: option.splits dest: idb_add_fresh)
next
  case (UpdateUser now uid userData)
  show ?thesis
  proof (cases "uid = userId")
    case True
    with assms UpdateUser show ?thesis
      by (simp add: updateUser_def Let_def split_beta getUser_def idb_get_put)
  next
    case False
    with assms UpdateUser show ?thesis
      by (auto simp: updateUser_def Let_def split_beta getUser_def idb_get_put
          split: option.splits dest: idb_get_Some)
  qed
qed (use assms in \<open>simp_all add: getUser_def\<close>)

lemma getTrifle_step:
  assumes "getTrifle db trifleId = Some t"
  shows "getTrifle (step db op) trifleId = Some t
         \<or> (op = DeleteTrifle trifleId \<and> getTrifle (step db op) trifleId = None)
         \<or> (\<exists>now trifleData. op = UpdateTrifle now trifleId trifleData
              \<and> getTrifle (step db op) trifleId
                  = Some (t\<lparr>t_current_hash := computeHash trifleData, t_last_modified := now,
                            t_logical_clock := t_logical_clock t + 1\<rparr>))"
proof (cases op)
  case (CreateTrifle array now ownerId name description)
  then show ?thesis using assms
    by (auto simp: createTrifle_def Let_def split_beta getTrifle_def idb_get_add
        split: option.splits dest: idb_add_fresh)
next
  case (UpdateTrifle now tid trifleData)
  show ?thesis
  proof (cases "tid = trifleId")
    case True
    with assms UpdateTrifle show ?thesis
      by (simp add: updateTrifle_def Let_def split_beta getTrifle_def idb_get_put)
  next
    case False
    with assms UpdateTrifle show ?thesis
      by (auto simp: updateTrifle_def Let_def split_beta getTrifle_def idb_get_put
          split: option.splits dest: idb_get_Some)
  qed
next
  case (DeleteTrifle tid)
  then show ?thesis using assms
    by (auto simp: deleteTrifle_def getTrifle_def idb_get_delete)
qed (use assms in \<open>simp_all add: getTrifle_def\<close>)

subsection \<open>Clocks along a history\<close>

lemma clocks_ok_step:
  assumes "clocks_ok db"
  shows "clocks_ok (step db op)"
proof -
  have u: "1 \<le> u_logical_clock u'" if "u' \<in> set (users (step db op))" for u'
  proof (cases op)
    case (CreateUser array now displayName)
    with that assms show ?thesis
      by (auto simp: createUser_def Let_def split_beta clocks_ok_def list_all_iff
          split: option.splits dest!: set_idb_add)
  next
    case (UpdateUser now uid userData)
    with that assms show ?thesis
      by (fastforce simp: updateUser_def Let_def split_beta clocks_ok_def list_all_iff
          getUser_def set_idb_put split: option.splits dest!: idb_get_Some)
  qed (use that assms in \<open>auto simp: clocks_ok_def list_all_iff\<close>)
  have t: "1 \<le> t_logical_clock t'" if "t' \<in> set (trifles (step db op))" for t'
  proof (cases op)
    case (CreateTrifle array now ownerId name description)
    with that assms show ?thesis
      by (auto simp: createTrifle_def Let_def split_beta clocks_ok_def list_all_iff
          split: option.splits dest!: set_idb_add)
  next
    case (UpdateTrifle now tid trifleData)
    with that assms show ?thesis
      by (fastforce simp: updateTrifle_def Let_def split_beta clocks_ok_def list_all_iff
          getTrifle_def set_idb_put split: option.splits dest!: idb_get_Some)
  next
    case (DeleteTrifle tid)
    with that assms show ?thesis
      by (auto simp: deleteTrifle_def idb_delete_def clocks_ok_def list_all_iff)
  qed (use that assms in \<open>auto simp: clocks_ok_def list_all_iff\<close>)
  show ?thesis
    using u t by (simp add: clocks_ok_def list_all_iff)
qed

lemma clocks_ok_run: "clocks_ok db \<Longrightarrow> clocks_ok (run db ops)"
  unfolding run_def by (induction ops arbitrary: db) (simp_all add: clocks_ok_step)

lemma clocks_ok_initDB: "clocks_ok initDB"
  by (simp add: clocks_ok_def initDB_def)

lemma user_clock_step:
  assumes "getUser db userId = Some u"
  shows "\<exists>u'. getUser (step db op) userId = Some u' \<and> u_logical_clock u \<le> u_logical_clock u'"
  using getUser_step [OF assms, of op] by auto

lemma user_clock_run:
  "getUser db userId = Some u \<Longrightarrow>
     \<exists>u'. getUser (run db ops) userId = Some u' \<and> u_logical_clock u \<le> u_logical_clock u'"
proof (induction ops arbitrary: db u)
  case Nil
  then show ?case by (simp add: run_def)
next
  case (Cons op ops)
  from user_clock_step [OF Cons.prems, of op] obtain u1
    where u1: "getUser (step db op) userId = Some u1" "u_logical_clock u \<le> u_logical_clock u1"
    by blast
  from Cons.IH [OF u1(1)] obtain u'
    where "getUser (run (step db op) ops) userId = Some u'" "u_logical_clock u1 \<le> u_logical_clock u'"
    by blast
  with u1(2) show ?case by (auto simp: run_def)
qed

lemma trifle_clock_step:
  assumes "getTrifle db trifleId = Some t" "getTrifle (step db op) trifleId = Some t'"
  shows "t_logical_clock t \<le> t_logical_clock t'"
  using getTrifle_step [OF assms(1), of op] assms(2) by auto

lemma trifle_clock_run:
  "getTrifle db trifleId = Some t \<Longrightarrow> DeleteTrifle trifleId \<notin> set ops \<Longrightarrow>
     \<exists>t'. getTrifle (run db ops) trifleId = Some t' \<and> t_logical_clock t \<le> t_logical_clock t'"
proof (induction ops arbitrary: db t)
  case Nil
  then show ?case by (simp add: run_def)
next
  case (Cons op ops)
  from Cons.prems(2) have op: "op \<noteq> DeleteTrifle trifleId" and ops: "DeleteTrifle trifleId \<notin> set ops"
    by auto
  from getTrifle_step [OF Cons.prems(1), of op] op obtain t1
    where t1: "getTrifle (step db op) trifleId = Some t1" "t_logical_clock t \<le> t_logical_clock t1"
    by auto
  from Cons.IH [OF t1(1) ops] obtain t'
    where "getTrifle (run (step db op) ops) trifleId = Some t'" "t_logical_clock t1 \<le> t_logical_clock t'"
    by blast
  with t1(2) show ?case by (auto simp: run_def)
qed

subsection \<open>The pointer stores after an operation\<close>

lemma users_createUser:
  "users (snd (createUser db array now displayName))
     = (case idb_add u_id
               \<lparr>u_id = generateId ''user'' array, u_email = None,
                u_current_hash = computeHash (new_userData displayName),
                u_last_modified = now, u_logical_clock = 1\<rparr> (users db) of
          None \<Rightarrow> users db | Some store \<Rightarrow> store)"
  by (simp add: createUser_def Let_def split_beta split: option.splits)

lemma users_updateUser:
  "users (snd (updateUser db now userId userData))
     = (case getUser db userId of
          None \<Rightarrow> users db
        | Some user \<Rightarrow>
            idb_put u_id (user\<lparr>u_current_hash := computeHash userData, u_last_modified := now,
                                u_logical_clock := u_logical_clock user + 1\<rparr>) (users db))"
  by (simp add: updateUser_def Let_def split_beta split: option.splits)

lemma trifles_createTrifle:
  "trifles (snd (createTrifle db array now ownerId name description))
     = (case idb_add t_id
               \<lparr>t_id = generateId ''trifle'' array, t_owner_id = ownerId,
                t_current_hash =
                  computeHash (new_trifleData name description (computeHash (JStr mainPyContent))),
                t_last_modified = now, t_logical_clock = 1\<rparr> (trifles db) of
          None \<Rightarrow> trifles db | Some store \<Rightarrow> store)"
  by (simp add: createTrifle_def Let_def split_beta split: option.splits)

lemma trifles_updateTrifle:
  "trifles (snd (updateTrifle db now trifleId trifleData))
     = (case getTrifle db trifleId of
          None \<Rightarrow> trifles db
        | Some trifle \<Rightarrow>
            idb_put t_id (trifle\<lparr>t_current_hash := computeHash trifleData, t_last_modified := now,
                                  t_logical_clock := t_logical_clock trifle + 1\<rparr>) (trifles db))"
  by (simp add: updateTrifle_def Let_def split_beta split: option.splits)

lemma users_createUser_initDB:
  "users (snd (createUser initDB array now displayName))
     = [\<lparr>u_id = generateId ''user'' array, u_email = None,
         u_current_hash = computeHash (new_userData displayName),
         u_last_modified = now, u_logical_clock = 1\<rparr>]"
  by (simp add: users_createUser initDB_def idb_add_def)

lemma trifles_createTrifle_initDB:
  "trifles (snd (createTrifle initDB array now ownerId name description))
     = [\<lparr>t_id = generateId ''trifle'' array, t_owner_id = ownerId,
         t_current_hash =
           computeHash (new_trifleData name description (computeHash (JStr mainPyContent))),
         t_last_modified = now, t_logical_clock = 1\<rparr>]"
  by (simp add: trifles_createTrifle initDB_def idb_add_def)

text \<open>
  Claim C4.  The logical clock: \<^verbatim>\<open>createUser\<close> and \<^verbatim>\<open>createTrifle\<close> create their pointer
  with \<^verbatim>\<open>logical_clock = 1\<close>; a successful \<^verbatim>\<open>updateUser\<close> or \<^verbatim>\<open>updateTrifle\<close> stores the pointer
  with the clock one higher, \<^verbatim>\<open>current_hash\<close> the hash of the new data and \<^verbatim>\<open>last_modified\<close>
  the time of the call.  So in every state reached from the empty database every clock is
  at least 1, and along any history the clock of a pointer never decreases: that of a
  user, which nothing deletes, and that of a trifle across every operation that leaves it
  in the store.
\<close>

theorem logical_clock_invariant:
  "(createUser db array now displayName = (Inr u, db') \<longrightarrow>
      u_logical_clock u = 1 \<and> getUser db' (u_id u) = Some u)
   \<and> (createTrifle db array now ownerId name description = (Inr t, db') \<longrightarrow>
      t_logical_clock t = 1 \<and> getTrifle db' (t_id t) = Some t)
   \<and> (updateUser db now userId userData = (Inr u, db') \<longrightarrow>
      (\<exists>u0. getUser db userId = Some u0
         \<and> u = u0\<lparr>u_current_hash := computeHash userData, u_last_modified := now,
                  u_logical_clock := u_logical_clock u0 + 1\<rparr>)
      \<and> getUser db' userId = Some u)
   \<and> (updateTrifle db now trifleId trifleData = (Inr t, db') \<longrightarrow>
      (\<exists>t0. getTrifle db trifleId = Some t0
         \<and> t = t0\<lparr>t_current_hash := computeHash trifleData, t_last_modified := now,
                  t_logical_clock := t_logical_clock t0 + 1\<rparr>)
      \<and> getTrifle db' trifleId = Some t)
   \<and> clocks_ok (run initDB ops)
   \<and> (getUser db userId = Some u \<longrightarrow>
      (\<exists>u'. getUser (run db ops) userId = Some u' \<and> u_logical_clock u \<le> u_logical_clock u'))
   \<and> (getTrifle db trifleId = Some t \<and> getTrifle (step db op) trifleId = Some t' \<longrightarrow>
      t_logical_clock t \<le> t_logical_clock t')
   \<and> (getTrifle db trifleId = Some t \<and> DeleteTrifle trifleId \<notin> set ops \<longrightarrow>
      (\<exists>t'. getTrifle (run db ops) trifleId = Some t' \<and> t_logical_clock t \<le> t_logical_clock t'))"
proof (intro conjI impI)
  assume "createUser db array now displayName = (Inr u, db')"
  then show "u_logical_clock u = 1" and "getUser db' (u_id u) = Some u"
    by (rule createUser_Inr)+
next
  assume "createTrifle db array now ownerId name description = (Inr t, db')"
  then show "t_logical_clock t = 1" and "getTrifle db' (t_id t) = Some t"
    by (rule createTrifle_Inr)+
next
  assume "updateUser db now userId userData = (Inr u, db')"
  then show "\<exists>u0. getUser db userId = Some u0
         \<and> u = u0\<lparr>u_current_hash := computeHash userData, u_last_modified := now,
                  u_logical_clock := u_logical_clock u0 + 1\<rparr>"
    and "getUser db' userId = Some u"
    by (rule updateUser_Inr)+
next
  assume "updateTrifle db now trifleId trifleData = (Inr t, db')"
  then show "\<exists>t0. getTrifle db trifleId = Some t0
         \<and> t = t0\<lparr>t_current_hash := computeHash trifleData, t_last_modified := now,
                  t_logical_clock := t_logical_clock t0 + 1\<rparr>"
    and "getTrifle db' trifleId = Some t"
    by (rule updateTrifle_Inr)+
next
  show "clocks_ok (run initDB ops)"
    by (rule clocks_ok_run [OF clocks_ok_initDB])
next
  assume "getUser db userId = Some u"
  then show "\<exists>u'. getUser (run db ops) userId = Some u' \<and> u_logical_clock u \<le> u_logical_clock u'"
    by (rule user_clock_run)
next
  assume "getTrifle db trifleId = Some t \<and> getTrifle (step db op) trifleId = Some t'"
  then show "t_logical_clock t \<le> t_logical_clock t'"
    using trifle_clock_step by blast
next
  assume "getTrifle db trifleId = Some t \<and> DeleteTrifle trifleId \<notin> set ops"
  then show "\<exists>t'. getTrifle (run db ops) trifleId = Some t' \<and> t_logical_clock t \<le> t_logical_clock t'"
    using trifle_clock_run by blast
qed

theorem logical_clock_invariant_witness:
  "getUser (snd (createUser initDB [1, 2, 3, 4, 5, 6] 1000 ''Ada''))
       (generateId ''user'' [1, 2, 3, 4, 5, 6])
     = Some \<lparr>u_id = generateId ''user'' [1, 2, 3, 4, 5, 6], u_email = None,
             u_current_hash = computeHash (new_userData ''Ada''),
             u_last_modified = 1000, u_logical_clock = 1\<rparr>
   \<and> (\<exists>u'. getUser
              (run (snd (createUser initDB [1, 2, 3, 4, 5, 6] 1000 ''Ada''))
                 [UpdateUser 2000 (generateId ''user'' [1, 2, 3, 4, 5, 6]) JNull,
                  CreateVersion 2500 ''trifle_a'' ''h1'' None,
                  UpdateUser 3000 (generateId ''user'' [1, 2, 3, 4, 5, 6]) (JObj [])])
              (generateId ''user'' [1, 2, 3, 4, 5, 6]) = Some u'
          \<and> 1 \<le> u_logical_clock u')
   \<and> map u_logical_clock
     (users (run initDB
        [CreateUser [1, 2, 3, 4, 5, 6] 1000 ''Ada'',
         UpdateUser 2000 (generateId ''user'' [1, 2, 3, 4, 5, 6]) JNull])) = [2]
   \<and> map t_logical_clock
     (trifles (run initDB
        [CreateTrifle [1, 2, 3, 4, 5, 6] 1000 ''user_010203040506'' ''demo'' None,
         UpdateTrifle 2000 (generateId ''trifle'' [1, 2, 3, 4, 5, 6]) (JObj []),
         UpdateTrifle 3000 (generateId ''trifle'' [1, 2, 3, 4, 5, 6]) JNull])) = [3]
   \<and> clocks_ok (run initDB
        [CreateUser [1, 2, 3, 4, 5, 6] 1000 ''Ada'',
         UpdateUser 2000 (generateId ''user'' [1, 2, 3, 4, 5, 6]) JNull])"
proof -
  let ?db1 = "snd (createUser initDB [1, 2, 3, 4, 5, 6] 1000 ''Ada'')"
  let ?id = "generateId ''user'' [1, 2, 3, 4, 5, 6]"
  let ?u1 = "\<lparr>u_id = ?id, u_email = None, u_current_hash = computeHash (new_userData ''Ada''),
             u_last_modified = 1000, u_logical_clock = 1\<rparr>"
  let ?ops = "[UpdateUser 2000 ?id JNull, CreateVersion 2500 ''trifle_a'' ''h1'' None,
               UpdateUser 3000 ?id (JObj [])]"
  have g: "getUser ?db1 ?id = Some ?u1"
    by (simp add: getUser_def users_createUser_initDB idb_get_def)
  have m: "\<exists>u'. getUser (run ?db1 ?ops) ?id = Some u' \<and> u_logical_clock ?u1 \<le> u_logical_clock u'"
    by (rule logical_clock_invariant
      [where db = ?db1 and userId = ?id and u = ?u1 and ops = ?ops,
       THEN conjunct2, THEN conjunct2, THEN conjunct2, THEN conjunct2, THEN conjunct2,
       THEN conjunct1, THEN mp, OF g])
  have u: "map u_logical_clock
     (users (run initDB
        [CreateUser [1, 2, 3, 4, 5, 6] 1000 ''Ada'',
         UpdateUser 2000 (generateId ''user'' [1, 2, 3, 4, 5, 6]) JNull])) = [2]"
    by (simp add: run_def users_updateUser getUser_def users_createUser_initDB
        idb_put_def idb_delete_def idb_get_def)
  have t: "map t_logical_clock
     (trifles (run initDB
        [CreateTrifle [1, 2, 3, 4, 5, 6] 1000 ''user_010203040506'' ''demo'' None,
         UpdateTrifle 2000 (generateId ''trifle'' [1, 2, 3, 4, 5, 6]) (JObj []),
         UpdateTrifle 3000 (generateId ''trifle'' [1, 2, 3, 4, 5, 6]) JNull])) = [3]"
    by (simp add: run_def trifles_updateTrifle getTrifle_def trifles_createTrifle_initDB
        idb_put_def idb_delete_def idb_get_def)
  have c: "clocks_ok (run initDB
        [CreateUser [1, 2, 3, 4, 5, 6] 1000 ''Ada'',
         UpdateUser 2000 (generateId ''user'' [1, 2, 3, 4, 5, 6]) JNull])"
    by (rule logical_clock_invariant
      [where ops = "[CreateUser [1, 2, 3, 4, 5, 6] 1000 ''Ada'',
         UpdateUser 2000 (generateId ''user'' [1, 2, 3, 4, 5, 6]) JNull]",
       THEN conjunct2, THEN conjunct2, THEN conjunct2, THEN conjunct2, THEN conjunct1])
  from m have m': "\<exists>u'. getUser (run ?db1 ?ops) ?id = Some u' \<and> 1 \<le> u_logical_clock u'"
    by simp
  show ?thesis
    using g m' u t c by (intro conjI)
qed

subsection \<open>Updating a pointer\<close>



lemma updateTrifle_present:
  "getTrifle db trifleId = Some t \<Longrightarrow>
     updateTrifle db now trifleId trifleData
       = (Inr (t\<lparr>t_current_hash := computeHash trifleData, t_last_modified := now,
                  t_logical_clock := t_logical_clock t + 1\<rparr>),
          db\<lparr>content := idb_put c_hash
                  \<lparr>c_hash = computeHash trifleData, c_data = trifleData, c_type = ''trifle''\<rparr>
                  (content db),
             trifles := idb_put t_id
                  (t\<lparr>t_current_hash := computeHash trifleData, t_last_modified := now,
                     t_logical_clock := t_logical_clock t + 1\<rparr>) (trifles db)\<rparr>)"
  by (simp add: updateTrifle_def storeContent_def Let_def)






subsection \<open>Deleting a trifle\<close>

lemma versions_deleteTrifle:
  assumes "distinct (map v_id (versions db))"
  shows "versions (deleteTrifle db trifleId)
           = filter (\<lambda>v. v_trifle_id v \<noteq> trifleId) (versions db)"
  using filter_by_key_of_distinct [OF assms, of "\<lambda>v. v_trifle_id v = trifleId"]
  by (simp add: deleteTrifle_def cursor_delete_all_filter idb_index_getAll_def)

lemma versions_deleteTrifle_none:
  "v \<in> set (versions (deleteTrifle db trifleId)) \<Longrightarrow> v_trifle_id v \<noteq> trifleId"
  by (auto simp: deleteTrifle_def cursor_delete_all_filter idb_index_getAll_def)

lemma versions_run_createVersion3:
  "versions (run initDB
      [CreateVersion 10 ''trifle_a'' ''h1'' None,
       CreateVersion 20 ''trifle_b'' ''h2'' (Some ''checkpoint''),
       CreateVersion 30 ''trifle_a'' ''h3'' None])
   = [\<lparr>v_id = 1, v_trifle_id = ''trifle_a'', v_hash = ''h1'', v_timestamp = 10, v_label = ''session''\<rparr>,
      \<lparr>v_id = 2, v_trifle_id = ''trifle_b'', v_hash = ''h2'', v_timestamp = 20, v_label = ''checkpoint''\<rparr>,
      \<lparr>v_id = 3, v_trifle_id = ''trifle_a'', v_hash = ''h3'', v_timestamp = 30, v_label = ''session''\<rparr>]"
  by (simp add: run_def initDB_def createVersion_def Let_def idb_add_def)

text \<open>
  Claim C6.  \<^verbatim>\<open>deleteTrifle\<close> removes the pointer record of the trifle and every version
  whose \<^verbatim>\<open>trifle_id\<close> is that of the trifle, and nothing else: the content store (also the
  blobs only the deleted pointer and versions referred to), the users, every other trifle
  and the versions of every other trifle stay as they are.
\<close>

theorem deleteTrifle_cascade_frame:
  "getTrifle (deleteTrifle db trifleId) trifleId = None
   \<and> (\<forall>v \<in> set (versions (deleteTrifle db trifleId)). v_trifle_id v \<noteq> trifleId)
   \<and> trifles (deleteTrifle db trifleId) = filter (\<lambda>t. t_id t \<noteq> trifleId) (trifles db)
   \<and> (j \<noteq> trifleId \<longrightarrow> getTrifle (deleteTrifle db trifleId) j = getTrifle db j)
   \<and> content (deleteTrifle db trifleId) = content db
   \<and> users (deleteTrifle db trifleId) = users db
   \<and> versions_keygen (deleteTrifle db trifleId) = versions_keygen db
   \<and> (idb_ok db \<longrightarrow>
        versions (deleteTrifle db trifleId)
          = filter (\<lambda>v. v_trifle_id v \<noteq> trifleId) (versions db))"
proof (intro conjI impI ballI)
  show "getTrifle (deleteTrifle db trifleId) trifleId = None"
    by (simp add: getTrifle_def deleteTrifle_def idb_get_delete)
next
  fix v assume "v \<in> set (versions (deleteTrifle db trifleId))"
  then show "v_trifle_id v \<noteq> trifleId" by (rule versions_deleteTrifle_none)
next
  show "trifles (deleteTrifle db trifleId) = filter (\<lambda>t. t_id t \<noteq> trifleId) (trifles db)"
    by (simp add: deleteTrifle_def idb_delete_def)
next
  assume "j \<noteq> trifleId"
  then show "getTrifle (deleteTrifle db trifleId) j = getTrifle db j"
    by (simp add: getTrifle_def deleteTrifle_def idb_get_delete)
next
  assume "idb_ok db"
  then show "versions (deleteTrifle db trifleId)
          = filter (\<lambda>v. v_trifle_id v \<noteq> trifleId) (versions db)"
    by (simp add: idb_ok_def versions_deleteTrifle)
qed simp_all

theorem deleteTrifle_cascade_frame_witness:
  "idb_ok (run initDB
      [CreateVersion 10 ''trifle_a'' ''h1'' None,
       CreateVersion 20 ''trifle_b'' ''h2'' (Some ''checkpoint''),
       CreateVersion 30 ''trifle_a'' ''h3'' None])
   \<and> versions (deleteTrifle (run initDB
      [CreateVersion 10 ''trifle_a'' ''h1'' None,
       CreateVersion 20 ''trifle_b'' ''h2'' (Some ''checkpoint''),
       CreateVersion 30 ''trifle_a'' ''h3'' None]) ''trifle_a'')
     = [\<lparr>v_id = 2, v_trifle_id = ''trifle_b'', v_hash = ''h2'', v_timestamp = 20,
         v_label = ''checkpoint''\<rparr>]"
proof -
  let ?db = "run initDB
      [CreateVersion 10 ''trifle_a'' ''h1'' None,
       CreateVersion 20 ''trifle_b'' ''h2'' (Some ''checkpoint''),
       CreateVersion 30 ''trifle_a'' ''h3'' None]"
  have ok: "idb_ok ?db"
    by (rule idb_ok_run [OF idb_ok_initDB])
  have "versions (deleteTrifle ?db ''trifle_a'')
          = filter (\<lambda>v. v_trifle_id v \<noteq> ''trifle_a'') (versions ?db)"
    using ok deleteTrifle_cascade_frame [of ?db "''trifle_a''"] by blast
  then show ?thesis
    using ok by (simp add: versions_run_createVersion3)
qed

subsection \<open>Updates and versions\<close>

lemma insort_key_last:
  "\<forall>y\<in>set xs. f y < f x \<Longrightarrow> insort_key f x xs = xs @ [x]"
  by (induction xs) auto

lemma createVersion_appends:
  assumes "idb_ok db"
  shows "createVersion db now trifleId hash label
     = (Inr \<lparr>v_id = versions_keygen db, v_trifle_id = trifleId, v_hash = hash,
              v_timestamp = now,
              v_label = (case label of None \<Rightarrow> ''session'' | Some l \<Rightarrow> l)\<rparr>,
        db\<lparr>versions := versions db
               @ [\<lparr>v_id = versions_keygen db, v_trifle_id = trifleId, v_hash = hash,
                    v_timestamp = now,
                    v_label = (case label of None \<Rightarrow> ''session'' | Some l \<Rightarrow> l)\<rparr>],
           versions_keygen := versions_keygen db + 1\<rparr>)"
proof -
  from assms have lt: "\<forall>v\<in>set (versions db). v_id v < versions_keygen db"
    by (simp add: idb_ok_def list_all_iff)
  then have "versions_keygen db \<notin> v_id ` set (versions db)"
    by auto
  then show ?thesis
    using lt by (simp add: createVersion_def Let_def idb_add_def insort_key_last)
qed

lemma saveCurrentFile_frame [simp]:
  "versions (snd (saveCurrentFile db now state)) = versions db"
  "versions_keygen (snd (saveCurrentFile db now state)) = versions_keygen db"
  "users (snd (saveCurrentFile db now state)) = users db"
  by (simp_all add: saveCurrentFile_def Let_def split_beta
      split: option.splits sum.splits prod.splits)

text \<open>
  Claim C8, as the code has it.  No update of a pointer creates a version: \<^verbatim>\<open>updateTrifle\<close>,
  \<^verbatim>\<open>updateUser\<close> and the save path \<^verbatim>\<open>saveCurrentFile\<close> leave the versions store and its key
  generator as they are.  A version is created by a call of \<^verbatim>\<open>createVersion\<close> alone, which
  appends one record with the next key, the given trifle id and hash, the time of the call
  and the given label, \<^verbatim>\<open>session\<close> when the label is left out.
\<close>

theorem versions_created_by_createVersion_only:
  "versions (snd (updateTrifle db now trifleId trifleData)) = versions db
   \<and> versions (snd (updateUser db now userId userData)) = versions db
   \<and> versions (snd (saveCurrentFile db now state)) = versions db
   \<and> (idb_ok db \<longrightarrow>
        createVersion db now trifleId hash label
          = (Inr \<lparr>v_id = versions_keygen db, v_trifle_id = trifleId, v_hash = hash,
                   v_timestamp = now,
                   v_label = (case label of None \<Rightarrow> ''session'' | Some l \<Rightarrow> l)\<rparr>,
             db\<lparr>versions := versions db
                    @ [\<lparr>v_id = versions_keygen db, v_trifle_id = trifleId, v_hash = hash,
                         v_timestamp = now,
                         v_label = (case label of None \<Rightarrow> ''session'' | Some l \<Rightarrow> l)\<rparr>],
                versions_keygen := versions_keygen db + 1\<rparr>))"
  using createVersion_appends [of db now trifleId hash label] by simp

theorem versions_created_by_createVersion_only_witness:
  "idb_ok initDB
   \<and> createVersion initDB 1000 ''trifle_a3f9c2b8e1d4'' ''h1'' None
       = (Inr \<lparr>v_id = 1, v_trifle_id = ''trifle_a3f9c2b8e1d4'', v_hash = ''h1'',
                v_timestamp = 1000, v_label = ''session''\<rparr>,
          initDB\<lparr>versions := [\<lparr>v_id = 1, v_trifle_id = ''trifle_a3f9c2b8e1d4'', v_hash = ''h1'',
                                 v_timestamp = 1000, v_label = ''session''\<rparr>],
                 versions_keygen := 2\<rparr>)"
  using versions_created_by_createVersion_only
    [of initDB 1000 "''trifle_a3f9c2b8e1d4''" _ _ _ _ "''h1''" None] idb_ok_initDB
  by (simp add: initDB_def)

text \<open>
  Claim C8, as the specification states it, fails: after \<^verbatim>\<open>createTrifle\<close> in the empty
  database, an update of the trifle succeeds and leaves the versions store empty, and so
  does a save of its file \<^verbatim>\<open>main.py\<close> from the editor.
\<close>

theorem update_creates_version_counterexample:
  "fst (updateTrifle (snd (createTrifle initDB [1, 2, 3, 4, 5, 6] 1000 ''user_a3f9c2b8e1d4'' ''demo'' None))
          2000 (generateId ''trifle'' [1, 2, 3, 4, 5, 6]) (JObj []))
     = Inr \<lparr>t_id = generateId ''trifle'' [1, 2, 3, 4, 5, 6], t_owner_id = ''user_a3f9c2b8e1d4'',
            t_current_hash = computeHash (JObj []), t_last_modified = 2000, t_logical_clock = 2\<rparr>
   \<and> versions (snd (updateTrifle
          (snd (createTrifle initDB [1, 2, 3, 4, 5, 6] 1000 ''user_a3f9c2b8e1d4'' ''demo'' None))
          2000 (generateId ''trifle'' [1, 2, 3, 4, 5, 6]) (JObj []))) = []
   \<and> versions (snd (saveCurrentFile
          (snd (createTrifle initDB [1, 2, 3, 4, 5, 6] 1000 ''user_a3f9c2b8e1d4'' ''demo'' None))
          2000
          \<lparr>e_trifleId = generateId ''trifle'' [1, 2, 3, 4, 5, 6],
           e_currentFile = Some \<lparr>f_path = ''main.py'',
                                  f_hash = computeHash (JStr mainPyContent),
                                  f_content = mainPyContent\<rparr>,
           e_isDirty = True, e_editorValue = ''print(1)''\<rparr>)) = []"
proof -
  have g: "getTrifle (snd (createTrifle initDB [1, 2, 3, 4, 5, 6] 1000 ''user_a3f9c2b8e1d4'' ''demo'' None))
        (generateId ''trifle'' [1, 2, 3, 4, 5, 6])
      = Some \<lparr>t_id = generateId ''trifle'' [1, 2, 3, 4, 5, 6], t_owner_id = ''user_a3f9c2b8e1d4'',
            t_current_hash =
              computeHash (new_trifleData ''demo'' None (computeHash (JStr mainPyContent))),
            t_last_modified = 1000, t_logical_clock = 1\<rparr>"
    by (simp add: getTrifle_def trifles_createTrifle_initDB idb_get_def)
  have "versions initDB = []"
    by (simp add: initDB_def)
  then show ?thesis
    by (simp add: updateTrifle_present [OF g])
qed

subsection \<open>The version log\<close>

lemma set_getVersions:
  "set (getVersions db trifleId) = {v \<in> set (versions db). v_trifle_id v = trifleId}"
  by (auto simp: getVersions_def idb_index_getAll_def)

lemma length_getVersions:
  "length (getVersions db trifleId)
     = length (filter (\<lambda>v. v_trifle_id v = trifleId) (versions db))"
  by (simp add: getVersions_def idb_index_getAll_def)

lemma sorted_getVersions:
  "sorted_wrt (\<lambda>a b. v_timestamp b \<le> v_timestamp a) (getVersions db trifleId)"
  using sorted_sort_key [of "\<lambda>v. - v_timestamp v"
      "idb_index_getAll v_trifle_id (versions db) trifleId"]
  by (simp add: getVersions_def sorted_map)

lemma distinct_getVersions:
  "distinct (map v_id (versions db)) \<Longrightarrow> distinct (map v_id (getVersions db trifleId))"
  by (simp add: getVersions_def idb_index_getAll_def distinct_map_filter distinct_map
      inj_on_def)

lemma getVersions_filter:
  "getVersions (db\<lparr>versions := filter P (versions db)\<rparr>) trifleId
     = filter P (getVersions db trifleId)"
  by (simp add: getVersions_def idb_index_getAll_def filter_sort) (metis filter_filter conj_commute)


lemma filter_not_in_drop:
  assumes "distinct xs"
  shows "filter (\<lambda>x. x \<notin> set (drop k xs)) xs = take k xs"
proof -
  have disj: "set (take k xs) \<inter> set (drop k xs) = {}"
    using assms by (rule set_take_disj_set_drop_if_distinct) simp
  have "filter (\<lambda>x. x \<notin> set (drop k xs)) (take k xs @ drop k xs) = take k xs"
    unfolding filter_append using disj by (auto simp: filter_id_conv filter_empty_conv)
  then show ?thesis by simp
qed

lemma length_filter_not_in:
  assumes "distinct xs" "distinct ds" "set ds \<subseteq> set xs"
  shows "length (filter (\<lambda>x. x \<notin> set ds) xs) + length ds = length xs"
proof -
  have "set (filter (\<lambda>x. x \<in> set ds) xs) = set ds"
    using assms(3) by auto
  moreover have "distinct (filter (\<lambda>x. x \<in> set ds) xs)"
    using assms(1) by simp
  ultimately have "length (filter (\<lambda>x. x \<in> set ds) xs) = length ds"
    using assms(2) by (metis distinct_card)
  then show ?thesis
    using sum_length_filter_compl [of "\<lambda>x. x \<in> set ds" xs] by simp
qed

lemma array_slice_nonneg: "0 \<le> k \<Longrightarrow> array_slice xs k = drop (nat k) xs"
  by (simp add: array_slice_def)

lemma session_versions_subset:
  "v \<in> set (session_versions db trifleId) \<Longrightarrow>
     v \<in> set (versions db) \<and> v_label v = ''session'' \<and> v_trifle_id v = trifleId"
  by (auto simp: session_versions_def set_getVersions)

lemma distinct_session_versions:
  "distinct (map v_id (versions db)) \<Longrightarrow> distinct (session_versions db trifleId)"
  using distinct_getVersions [of db trifleId]
  by (simp add: session_versions_def distinct_map)

lemma sorted_session_versions:
  "sorted_wrt (\<lambda>a b. v_timestamp b \<le> v_timestamp a) (session_versions db trifleId)"
  unfolding session_versions_def by (rule sorted_wrt_filter [OF sorted_getVersions])

lemma cleanupVersions_effect:
  fixes db :: database and trifleId :: string and keepCount :: "int option"
  assumes ok: "distinct (map v_id (versions db))"
    and keep: "0 \<le> (case keepCount of None \<Rightarrow> 10 | Some k \<Rightarrow> k)"
  defines "deleted \<equiv> drop (nat (case keepCount of None \<Rightarrow> 10 | Some k \<Rightarrow> k))
                        (session_versions db trifleId)"
  shows "cleanupVersions db trifleId keepCount
           = (length deleted, db\<lparr>versions := filter (\<lambda>v. v \<notin> set deleted) (versions db)\<rparr>)"
proof -
  have sub: "set deleted \<subseteq> set (versions db)"
    unfolding deleted_def using session_versions_subset by (auto dest: in_set_dropD)
  have inj: "inj_on v_id (set (versions db))"
    using ok by (simp add: distinct_map)
  have "filter (\<lambda>v. v_id v \<notin> v_id ` set deleted) (versions db)
          = filter (\<lambda>v. v \<notin> set deleted) (versions db)"
  proof (rule filter_cong [OF refl])
    fix v assume "v \<in> set (versions db)"
    then show "(v_id v \<notin> v_id ` set deleted) = (v \<notin> set deleted)"
      using sub inj by (auto dest: inj_onD)
  qed
  then have fold: "foldl (\<lambda>store v. idb_delete v_id (v_id v) store) (versions db) deleted
          = filter (\<lambda>v. v \<notin> set deleted) (versions db)"
    by (simp only: foldl_idb_delete)
  have slice: "array_slice (filter (\<lambda>v. v_label v = ''session'') (getVersions db trifleId))
                 (case keepCount of None \<Rightarrow> 10 | Some k \<Rightarrow> k) = deleted"
    using keep by (simp only: array_slice_nonneg deleted_def session_versions_def)
  have c: "cleanupVersions db trifleId keepCount
             = (if length deleted = 0 then (0, db)
                else (length deleted,
                      db\<lparr>versions := filter (\<lambda>v. v \<notin> set deleted) (versions db)\<rparr>))"
    by (simp only: cleanupVersions_def Let_def slice fold)
  show ?thesis
  proof (cases "deleted = []")
    case True
    then show ?thesis unfolding c by simp
  next
    case False
    then show ?thesis unfolding c by simp
  qed
qed

lemma session_versions_after_cleanup:
  assumes "distinct (map v_id (versions db))"
  shows "session_versions
           (db\<lparr>versions := filter (\<lambda>v. v \<notin> set (drop k (session_versions db trifleId)))
                              (versions db)\<rparr>) trifleId
         = take k (session_versions db trifleId)"
proof -
  have "session_versions
           (db\<lparr>versions := filter (\<lambda>v. v \<notin> set (drop k (session_versions db trifleId)))
                              (versions db)\<rparr>) trifleId
        = filter (\<lambda>v. v \<notin> set (drop k (session_versions db trifleId)))
            (session_versions db trifleId)"
    unfolding session_versions_def getVersions_filter filter_filter
    by (rule filter_cong) auto
  then show ?thesis
    using filter_not_in_drop [OF distinct_session_versions [OF assms]] by simp
qed

lemma cleanupVersions_properties:
  fixes db :: database and trifleId :: string and keepCount :: "int option"
  assumes ok: "idb_ok db"
    and keep: "0 \<le> (case keepCount of None \<Rightarrow> 10 | Some k \<Rightarrow> k)"
  defines "k \<equiv> nat (case keepCount of None \<Rightarrow> 10 | Some k \<Rightarrow> k)"
  defines "kept \<equiv> take k (session_versions db trifleId)"
  defines "deleted \<equiv> drop k (session_versions db trifleId)"
  defines "db' \<equiv> snd (cleanupVersions db trifleId keepCount)"
  shows "fst (cleanupVersions db trifleId keepCount) = length deleted"
    and "versions db' = filter (\<lambda>v. v \<notin> set deleted) (versions db)"
    and "length (versions db') + length deleted = length (versions db)"
    and "\<forall>v \<in> set deleted. v \<in> set (versions db) \<and> v_label v = ''session'' \<and> v_trifle_id v = trifleId"
    and "\<forall>v \<in> set (versions db). v_label v = ''checkpoint'' \<longrightarrow> v \<in> set (versions db')"
    and "\<forall>a \<in> set kept. \<forall>b \<in> set deleted. v_timestamp b \<le> v_timestamp a"
    and "session_versions db' trifleId = kept"
    and "cleanupVersions db' trifleId keepCount = (0, db')"
proof -
  from ok have d: "distinct (map v_id (versions db))"
    by (simp add: idb_ok_def)
  have eff: "cleanupVersions db trifleId keepCount
               = (length deleted, db\<lparr>versions := filter (\<lambda>v. v \<notin> set deleted) (versions db)\<rparr>)"
    unfolding deleted_def k_def by (rule cleanupVersions_effect [OF d keep])
  then have db': "db' = db\<lparr>versions := filter (\<lambda>v. v \<notin> set deleted) (versions db)\<rparr>"
    by (simp add: db'_def)
  show "fst (cleanupVersions db trifleId keepCount) = length deleted"
    by (simp add: eff)
  show v: "versions db' = filter (\<lambda>v. v \<notin> set deleted) (versions db)"
    by (simp add: db')
  show del: "\<forall>v \<in> set deleted. v \<in> set (versions db) \<and> v_label v = ''session'' \<and> v_trifle_id v = trifleId"
    unfolding deleted_def using session_versions_subset by (blast dest: in_set_dropD)
  have "distinct deleted"
    unfolding deleted_def using distinct_session_versions [OF d] by simp
  moreover have "distinct (versions db)"
    using d by (simp add: distinct_map)
  moreover have "set deleted \<subseteq> set (versions db)"
    using del by blast
  ultimately show "length (versions db') + length deleted = length (versions db)"
    unfolding v by (intro length_filter_not_in)
  show "\<forall>v \<in> set (versions db). v_label v = ''checkpoint'' \<longrightarrow> v \<in> set (versions db')"
    unfolding v using del by auto
  have "sorted_wrt (\<lambda>a b. v_timestamp b \<le> v_timestamp a) (kept @ deleted)"
    unfolding kept_def deleted_def using sorted_session_versions by simp
  then show "\<forall>a \<in> set kept. \<forall>b \<in> set deleted. v_timestamp b \<le> v_timestamp a"
    by (simp add: sorted_wrt_append)
  show s: "session_versions db' trifleId = kept"
    unfolding db' deleted_def kept_def by (rule session_versions_after_cleanup [OF d])
  have d': "distinct (map v_id (versions db'))"
    unfolding v using d by (simp add: distinct_map_filter)
  have "cleanupVersions db' trifleId keepCount
          = (length (drop k kept),
             db'\<lparr>versions := filter (\<lambda>v. v \<notin> set (drop k kept)) (versions db')\<rparr>)"
    using cleanupVersions_effect [OF d' keep, of trifleId] by (simp only: s k_def)
  then show "cleanupVersions db' trifleId keepCount = (0, db')"
    by (simp add: kept_def)
qed

text \<open>
  Claim C5.  \<^verbatim>\<open>getVersions\<close> returns all the versions of the trifle, newest first by
  timestamp.  \<^verbatim>\<open>cleanupVersions\<close> with a keep count that is not negative (10 when it is left
  out) deletes exactly the versions labeled \<^verbatim>\<open>session\<close> of that trifle after the first
  \<^verbatim>\<open>keepCount\<close> of that order, none of which is newer than one it keeps; it returns how many
  it deleted, deletes no version labeled \<^verbatim>\<open>checkpoint\<close> and changes no other store; run again
  at once it deletes nothing and returns 0.
\<close>

theorem version_log_retention:
  "set (getVersions db trifleId) = {v \<in> set (versions db). v_trifle_id v = trifleId}
   \<and> length (getVersions db trifleId)
       = length (filter (\<lambda>v. v_trifle_id v = trifleId) (versions db))
   \<and> sorted_wrt (\<lambda>a b. v_timestamp b \<le> v_timestamp a) (getVersions db trifleId)
   \<and> (idb_ok db \<and> 0 \<le> (case keepCount of None \<Rightarrow> 10 | Some k \<Rightarrow> k) \<longrightarrow>
        (let k = nat (case keepCount of None \<Rightarrow> 10 | Some k \<Rightarrow> k);
             kept = take k (session_versions db trifleId);
             deleted = drop k (session_versions db trifleId);
             db' = snd (cleanupVersions db trifleId keepCount)
         in fst (cleanupVersions db trifleId keepCount) = length deleted
            \<and> versions db' = filter (\<lambda>v. v \<notin> set deleted) (versions db)
            \<and> length (versions db') + length deleted = length (versions db)
            \<and> (\<forall>v \<in> set deleted.
                  v \<in> set (versions db) \<and> v_label v = ''session'' \<and> v_trifle_id v = trifleId)
            \<and> (\<forall>v \<in> set (versions db). v_label v = ''checkpoint'' \<longrightarrow> v \<in> set (versions db'))
            \<and> (\<forall>a \<in> set kept. \<forall>b \<in> set deleted. v_timestamp b \<le> v_timestamp a)
            \<and> session_versions db' trifleId = kept
            \<and> users db' = users db \<and> trifles db' = trifles db \<and> content db' = content db
            \<and> versions_keygen db' = versions_keygen db
            \<and> cleanupVersions db' trifleId keepCount = (0, db')))"
proof (intro conjI impI)
  show "set (getVersions db trifleId) = {v \<in> set (versions db). v_trifle_id v = trifleId}"
    by (rule set_getVersions)
  show "length (getVersions db trifleId)
       = length (filter (\<lambda>v. v_trifle_id v = trifleId) (versions db))"
    by (rule length_getVersions)
  show "sorted_wrt (\<lambda>a b. v_timestamp b \<le> v_timestamp a) (getVersions db trifleId)"
    by (rule sorted_getVersions)
next
  assume a: "idb_ok db \<and> 0 \<le> (case keepCount of None \<Rightarrow> 10 | Some k \<Rightarrow> k)"
  then have ok: "idb_ok db" and keep: "0 \<le> (case keepCount of None \<Rightarrow> 10 | Some k \<Rightarrow> k)"
    by simp_all
  note p = cleanupVersions_properties [OF ok keep, of trifleId]
  show "let k = nat (case keepCount of None \<Rightarrow> 10 | Some k \<Rightarrow> k);
             kept = take k (session_versions db trifleId);
             deleted = drop k (session_versions db trifleId);
             db' = snd (cleanupVersions db trifleId keepCount)
         in fst (cleanupVersions db trifleId keepCount) = length deleted
            \<and> versions db' = filter (\<lambda>v. v \<notin> set deleted) (versions db)
            \<and> length (versions db') + length deleted = length (versions db)
            \<and> (\<forall>v \<in> set deleted.
                  v \<in> set (versions db) \<and> v_label v = ''session'' \<and> v_trifle_id v = trifleId)
            \<and> (\<forall>v \<in> set (versions db). v_label v = ''checkpoint'' \<longrightarrow> v \<in> set (versions db'))
            \<and> (\<forall>a \<in> set kept. \<forall>b \<in> set deleted. v_timestamp b \<le> v_timestamp a)
            \<and> session_versions db' trifleId = kept
            \<and> users db' = users db \<and> trifles db' = trifles db \<and> content db' = content db
            \<and> versions_keygen db' = versions_keygen db
            \<and> cleanupVersions db' trifleId keepCount = (0, db')"
    unfolding Let_def
    by (intro conjI) (rule p cleanupVersions_frame)+
qed


theorem version_log_retention_witness:
  "idb_ok (run initDB
      [CreateVersion 10 ''trifle_a'' ''h1'' None,
       CreateVersion 20 ''trifle_a'' ''h2'' (Some ''checkpoint''),
       CreateVersion 30 ''trifle_a'' ''h3'' None,
       CreateVersion 30 ''trifle_a'' ''h4'' None])
   \<and> map v_id (getVersions (run initDB
      [CreateVersion 10 ''trifle_a'' ''h1'' None,
       CreateVersion 20 ''trifle_a'' ''h2'' (Some ''checkpoint''),
       CreateVersion 30 ''trifle_a'' ''h3'' None,
       CreateVersion 30 ''trifle_a'' ''h4'' None]) ''trifle_a'') = [3, 4, 2, 1]
   \<and> fst (cleanupVersions (run initDB
      [CreateVersion 10 ''trifle_a'' ''h1'' None,
       CreateVersion 20 ''trifle_a'' ''h2'' (Some ''checkpoint''),
       CreateVersion 30 ''trifle_a'' ''h3'' None,
       CreateVersion 30 ''trifle_a'' ''h4'' None]) ''trifle_a'' (Some 1)) = 2
   \<and> map v_id (versions (snd (cleanupVersions (run initDB
      [CreateVersion 10 ''trifle_a'' ''h1'' None,
       CreateVersion 20 ''trifle_a'' ''h2'' (Some ''checkpoint''),
       CreateVersion 30 ''trifle_a'' ''h3'' None,
       CreateVersion 30 ''trifle_a'' ''h4'' None]) ''trifle_a'' (Some 1)))) = [2, 3]
   \<and> cleanupVersions (snd (cleanupVersions (run initDB
      [CreateVersion 10 ''trifle_a'' ''h1'' None,
       CreateVersion 20 ''trifle_a'' ''h2'' (Some ''checkpoint''),
       CreateVersion 30 ''trifle_a'' ''h3'' None,
       CreateVersion 30 ''trifle_a'' ''h4'' None]) ''trifle_a'' (Some 1))) ''trifle_a'' (Some 1)
     = (0, snd (cleanupVersions (run initDB
      [CreateVersion 10 ''trifle_a'' ''h1'' None,
       CreateVersion 20 ''trifle_a'' ''h2'' (Some ''checkpoint''),
       CreateVersion 30 ''trifle_a'' ''h3'' None,
       CreateVersion 30 ''trifle_a'' ''h4'' None]) ''trifle_a'' (Some 1)))"
proof -
  let ?db = "run initDB
      [CreateVersion 10 ''trifle_a'' ''h1'' None,
       CreateVersion 20 ''trifle_a'' ''h2'' (Some ''checkpoint''),
       CreateVersion 30 ''trifle_a'' ''h3'' None,
       CreateVersion 30 ''trifle_a'' ''h4'' None]"
  let ?v1 = "\<lparr>v_id = 1, v_trifle_id = ''trifle_a'', v_hash = ''h1'', v_timestamp = 10, v_label = ''session''\<rparr>"
  let ?v2 = "\<lparr>v_id = 2, v_trifle_id = ''trifle_a'', v_hash = ''h2'', v_timestamp = 20, v_label = ''checkpoint''\<rparr>"
  let ?v3 = "\<lparr>v_id = 3, v_trifle_id = ''trifle_a'', v_hash = ''h3'', v_timestamp = 30, v_label = ''session''\<rparr>"
  let ?v4 = "\<lparr>v_id = 4, v_trifle_id = ''trifle_a'', v_hash = ''h4'', v_timestamp = 30, v_label = ''session''\<rparr>"
  have ok: "idb_ok ?db"
    by (rule idb_ok_run [OF idb_ok_initDB])
  have vs: "versions ?db = [?v1, ?v2, ?v3, ?v4]"
    by (simp add: run_def initDB_def createVersion_def Let_def idb_add_def)
  have g: "getVersions ?db ''trifle_a'' = [?v3, ?v4, ?v2, ?v1]"
    by (simp add: getVersions_def idb_index_getAll_def vs)
  have s: "session_versions ?db ''trifle_a'' = [?v3, ?v4, ?v1]"
    by (simp add: session_versions_def g)
  have hyp: "idb_ok ?db \<and> 0 \<le> (case Some 1 of None \<Rightarrow> 10 | Some k \<Rightarrow> (k::int))"
    using ok by simp
  note t = version_log_retention [of ?db "''trifle_a''" "Some 1", unfolded Let_def,
      THEN conjunct2, THEN conjunct2, THEN conjunct2, THEN mp, OF hyp]
  have n: "fst (cleanupVersions ?db ''trifle_a'' (Some 1)) = 2"
    using t by (simp add: s)
  have "versions (snd (cleanupVersions ?db ''trifle_a'' (Some 1)))
          = filter (\<lambda>v. v \<notin> set (drop 1 [?v3, ?v4, ?v1])) (versions ?db)"
    using t by (simp add: s)
  then have r: "map v_id (versions (snd (cleanupVersions ?db ''trifle_a'' (Some 1)))) = [2, 3]"
    by (simp add: vs)
  have i: "cleanupVersions (snd (cleanupVersions ?db ''trifle_a'' (Some 1))) ''trifle_a'' (Some 1)
     = (0, snd (cleanupVersions ?db ''trifle_a'' (Some 1)))"
    using t by blast
  show ?thesis
    using ok g n r i by simp
qed

end
